theory Spec2Isabelle
  imports Complex_Main
begin

section \<open>Route plausibility resolution of \<open>adsb_api/app.py\<close>\<close>

text \<open>
  The theory embeds the two functions of \<open>src/adsb_api/app.py\<close> that carry logic:
  \<open>get_route_for_callsign_lat_lng\<close> (lines 185-214) and \<open>api_routeset\<close> (lines 262-274).
  Both call collaborators whose code lives in other modules: the route store
  \<open>redisVRS.get_route\<close> and the oracle \<open>plausible\<close>. They are parameters of the model,
  functions that either raise (\<open>Inl\<close>) or return (\<open>Inr\<close>).
\<close>

subsection \<open>Data\<close>

text \<open>
  The dictionaries handed out by the store are records. Only the keys that \<open>app.py\<close> reads
  or writes are named; whatever else a dictionary holds is the record's extension slot.
  A field carries the name of its dictionary as a prefix (\<open>route["_airports"]\<close> is
  \<open>route_airports\<close>, \<open>airportA['lat']\<close> is \<open>airport_lat\<close>), so that the parameters
  \<open>callsign\<close>, \<open>lat\<close>, \<open>lng\<close> and \<open>plausible\<close> of the source keep their names.
  A key that is absent is \<open>None\<close>: \<open>route["plausible"]\<close> before the resolver sets it.

  Airport coordinates are decimal degrees, held as Python floats. A float is a finite
  number, taken here as the exact rational it stands for (\<open>Finite 0\<close> is \<open>+0.0\<close>), or
  the negative zero \<open>-0.0\<close>, or an infinity, or not a number. The resolver never computes
  with a coordinate; it only formats it.

  The store builds the dictionary it returns at each call, so that the assignment to
  \<open>route["plausible"]\<close> of line 213 changes the record of this one resolution and is a
  record update here.
\<close>

datatype pyfloat = Finite rat | Minus_zero | Infinity | Minus_infinity | NaN

record airport =
  airport_iata :: string
  airport_lat :: pyfloat
  airport_lon :: pyfloat

record 'a route =
  route_airport_codes :: string
  route_airports :: "'a airport_scheme list"
  route_plausible :: "bool option"

record plane =
  plane_callsign :: string
  plane_lat :: string
  plane_lng :: string

record PlaneList =
  planes :: "plane list"

record 'r PrettyJSONResponse =
  content :: 'r
  headers :: "(string \<times> string) list"

text \<open>An exception raised by a collaborator, with its message.\<close>

datatype error = StoreUnavailable string | OracleFailure string

text \<open>
  The six positional arguments of one call \<open>plausible(lat, lng, a_lat, a_lon, b_lat, b_lon)\<close>,
  all of them text.
\<close>

type_synonym check_args = "string \<times> string \<times> string \<times> string \<times> string \<times> string"

text \<open>
  What a run does besides returning: the lines it prints and the oracle calls it makes,
  in the order in which they happen. A printed line is kept by its kind and the values
  interpolated into it.
\<close>

datatype 'd event =
    Print_planeList PlaneList
  | Print_callsign string
  | Print_checking string string
  | Call_plausible check_args
  | Print_implausible string string 'd
  | Print_ok

fun oracle_calls :: "'d event list \<Rightarrow> check_args list" where
  "oracle_calls [] = []"
| "oracle_calls (Call_plausible args # evs) = args # oracle_calls evs"
| "oracle_calls (ev # evs) = oracle_calls evs"

subsection \<open>The format specification \<open>.5f\<close>\<close>

text \<open>
  \<open>f"{x:.5f}"\<close> writes, for a finite \<open>x\<close>, the decimal numeral nearest to \<open>x\<close> that has
  five digits after the point, a tie going to the even last digit, with a minus sign when
  the sign bit of \<open>x\<close> is set: \<open>-0.0\<close> and the negative numbers that round to zero are
  written \<open>-0.00000\<close>. An infinity is written \<open>inf\<close> or \<open>-inf\<close>, and not a number is
  written \<open>nan\<close>.
\<close>

definition digit_char :: "int \<Rightarrow> char" where
  "digit_char d = ''0123456789'' ! nat d"

function decimal :: "int \<Rightarrow> string" where
  "decimal n = (if n < 10 then [digit_char n] else decimal (n div 10) @ [digit_char (n mod 10)])"
  by pat_completeness auto
termination
  by (relation "measure nat") auto

declare decimal.simps [simp del]

definition round_half_even :: "rat \<Rightarrow> int" where
  "round_half_even x =
     (let f = \<lfloor>x\<rfloor>; d = x - of_int f
      in if d < 1 / 2 then f
         else if 1 / 2 < d then f + 1
         else if even f then f else f + 1)"

text \<open>The numeral for a sign bit and a magnitude.\<close>

definition fixed_5 :: "bool \<Rightarrow> rat \<Rightarrow> string" where
  "fixed_5 negative magnitude =
     (let n = round_half_even (magnitude * 100000)
      in (if negative then ''-'' else '''')
         @ decimal (n div 100000)
         @ ''.''
         @ [digit_char (n div 10000 mod 10), digit_char (n div 1000 mod 10),
            digit_char (n div 100 mod 10), digit_char (n div 10 mod 10),
            digit_char (n mod 10)])"

fun format_5f :: "pyfloat \<Rightarrow> string" where
  "format_5f (Finite x) = fixed_5 (x < 0) \<bar>x\<bar>"
| "format_5f Minus_zero = fixed_5 True 0"
| "format_5f Infinity = ''inf''"
| "format_5f Minus_infinity = ''-inf''"
| "format_5f NaN = ''nan''"

subsection \<open>\<open>get_route_for_callsign_lat_lng\<close>\<close>

text \<open>
  The \<open>while\<close> loop of lines 192-207, entered with the loop variables \<open>a\<close>,
  \<open>is_plausible\<close> and \<open>distance\<close>. It returns the events of the iterations it runs and
  either the exception of the oracle or the final \<open>(is_plausible, distance)\<close>.
  \<open>len(...) - 1\<close> is computed on integers: it is \<open>-1\<close> for an empty list.
\<close>

function segment_loop ::
  "(check_args \<Rightarrow> error + bool \<times> 'd) \<Rightarrow> string \<Rightarrow> string \<Rightarrow> 'a airport_scheme list
     \<Rightarrow> nat \<Rightarrow> bool \<Rightarrow> 'd \<Rightarrow> 'd event list \<times> (error + bool \<times> 'd)"
where
  "segment_loop plausible lat lng airports a is_plausible distance =
     (if int a < int (length airports) - 1 then
        let b = a + 1;
            airportA = airports ! a;
            airportB = airports ! b;
            args = (lat, lng,
                    format_5f (airport_lat airportA), format_5f (airport_lon airportA),
                    format_5f (airport_lat airportB), format_5f (airport_lon airportB));
            evs = [Print_checking (airport_iata airportA) (airport_iata airportB),
                   Call_plausible args]
        in case plausible args of
             Inl e \<Rightarrow> (evs, Inl e)
           | Inr (is_plausible', distance') \<Rightarrow>
               if is_plausible' then (evs, Inr (is_plausible', distance'))
               else case segment_loop plausible lat lng airports b is_plausible' distance' of
                      (evs', r) \<Rightarrow> (evs @ evs', r)
      else ([], Inr (is_plausible, distance)))"
  by pat_completeness auto
termination
  by (relation "measure (\<lambda>(plausible, lat, lng, airports, a, is_plausible, distance).
        length airports - a)") auto

declare segment_loop.simps [simp del]

definition get_route_for_callsign_lat_lng ::
  "(string \<Rightarrow> error + ('a, 'z) route_scheme) \<Rightarrow> (check_args \<Rightarrow> error + bool \<times> 'd)
     \<Rightarrow> string \<Rightarrow> string \<Rightarrow> string
     \<Rightarrow> ('d::zero) event list \<times> (error + ('a, 'z) route_scheme)"
where
  "get_route_for_callsign_lat_lng get_route plausible callsign lat lng =
     (case get_route callsign of
        Inl e \<Rightarrow> ([], Inl e)
      | Inr route \<Rightarrow>
          if route_airport_codes route \<noteq> ''unknown'' then
            case segment_loop plausible lat lng (route_airports route) 0 False 0 of
              (evs, Inl e) \<Rightarrow> (Print_callsign callsign # evs, Inl e)
            | (evs, Inr (is_plausible, distance)) \<Rightarrow>
                (Print_callsign callsign # evs
                   @ [if \<not> is_plausible then Print_implausible lat lng distance else Print_ok],
                 Inr (route\<lparr>route_plausible := Some is_plausible\<rparr>))
          else ([], Inr route))"

subsection \<open>\<open>api_routeset\<close>\<close>

text \<open>
  The \<open>for\<close> loop of lines 268-272 over the planes still to do, with the list \<open>response\<close>
  built so far. An exception of one resolution leaves the loop and the function.
\<close>

fun routeset_loop ::
  "(string \<Rightarrow> error + ('a, 'z) route_scheme) \<Rightarrow> (check_args \<Rightarrow> error + bool \<times> 'd)
     \<Rightarrow> plane list \<Rightarrow> ('a, 'z) route_scheme list
     \<Rightarrow> ('d::zero) event list \<times> (error + ('a, 'z) route_scheme list)"
where
  "routeset_loop get_route plausible [] response = ([], Inr response)"
| "routeset_loop get_route plausible (plane # rest) response =
     (case get_route_for_callsign_lat_lng get_route plausible
             (plane_callsign plane) (plane_lat plane) (plane_lng plane) of
        (evs, Inl e) \<Rightarrow> (evs, Inl e)
      | (evs, Inr route) \<Rightarrow>
          (case routeset_loop get_route plausible rest (response @ [route]) of
             (evs', r) \<Rightarrow> (evs @ evs', r)))"

definition api_routeset ::
  "(string \<Rightarrow> error + ('a, 'z) route_scheme) \<Rightarrow> (check_args \<Rightarrow> error + bool \<times> 'd)
     \<Rightarrow> PlaneList
     \<Rightarrow> ('d::zero) event list \<times> (error + ('a, 'z) route_scheme list PrettyJSONResponse)"
where
  "api_routeset get_route plausible planeList =
     (case routeset_loop get_route plausible (planes planeList) [] of
        (evs, Inl e) \<Rightarrow> (Print_planeList planeList # evs, Inl e)
      | (evs, Inr response) \<Rightarrow>
          (Print_planeList planeList # evs,
           Inr \<lparr>content = response,
                headers = [(''Access-Control-Allow-Origin'', ''*'')]\<rparr>))"

subsection \<open>Notions used in the statements\<close>

text \<open>The resolution of one item of a batch.\<close>

abbreviation resolve_plane ::
  "(string \<Rightarrow> error + ('a, 'z) route_scheme) \<Rightarrow> (check_args \<Rightarrow> error + bool \<times> 'd)
     \<Rightarrow> plane \<Rightarrow> ('d::zero) event list \<times> (error + ('a, 'z) route_scheme)"
where
  "resolve_plane get_route plausible p \<equiv>
     get_route_for_callsign_lat_lng get_route plausible
       (plane_callsign p) (plane_lat p) (plane_lng p)"

text \<open>
  The oracle arguments that belong to segment \<open>i\<close> of a chain, the pair of
  \<open>airports[i]\<close> and \<open>airports[i+1]\<close>, for an observed position.
\<close>

definition segment_args ::
  "string \<Rightarrow> string \<Rightarrow> 'a airport_scheme list \<Rightarrow> nat \<Rightarrow> check_args"
where
  "segment_args lat lng airports i =
     (lat, lng,
      format_5f (airport_lat (airports ! i)), format_5f (airport_lon (airports ! i)),
      format_5f (airport_lat (airports ! (i + 1))), format_5f (airport_lon (airports ! (i + 1))))"

text \<open>The two events of the iteration of the loop that checks segment \<open>i\<close>.\<close>

definition segment_events ::
  "string \<Rightarrow> string \<Rightarrow> 'a airport_scheme list \<Rightarrow> nat \<Rightarrow> 'd event list"
where
  "segment_events lat lng airports i =
     [Print_checking (airport_iata (airports ! i)) (airport_iata (airports ! (i + 1))),
      Call_plausible (segment_args lat lng airports i)]"

text \<open>
  The oracle ends the walk at a call when it answers plausible or raises; it lets the
  walk go on when it answers implausible.
\<close>

definition ends_walk :: "(check_args \<Rightarrow> error + bool \<times> 'd) \<Rightarrow> check_args \<Rightarrow> bool" where
  "ends_walk plausible args =
     (case plausible args of Inl e \<Rightarrow> True | Inr (is_plausible, distance) \<Rightarrow> is_plausible)"

text \<open>The prefix of a list up to and including its first element with a property.\<close>

fun upto_first :: "('x \<Rightarrow> bool) \<Rightarrow> 'x list \<Rightarrow> 'x list" where
  "upto_first P [] = []"
| "upto_first P (x # xs) = (if P x then [x] else x # upto_first P xs)"

text \<open>
  A decimal numeral with exactly five fractional digits: an optional minus sign, one digit
  or more, a point, and five digits.
\<close>

definition is_digit :: "char \<Rightarrow> bool" where
  "is_digit c = (c \<in> set ''0123456789'')"

definition five_fraction_digits :: "string \<Rightarrow> bool" where
  "five_fraction_digits s =
     (let whole = takeWhile (\<lambda>c. c \<noteq> CHR ''.'') s;
          fraction = drop 1 (dropWhile (\<lambda>c. c \<noteq> CHR ''.'') s);
          digits = (if take 1 whole = ''-'' then drop 1 whole else whole)
      in s = whole @ ''.'' @ fraction
         \<and> digits \<noteq> [] \<and> list_all is_digit digits
         \<and> length fraction = 5 \<and> list_all is_digit fraction)"

text \<open>
  The number that a decimal numeral denotes: its digits before and after the point read
  in base ten, negated after a minus sign.
\<close>

definition digit_value :: "char \<Rightarrow> int" where
  "digit_value c = int (length (takeWhile (\<lambda>d. d \<noteq> c) ''0123456789''))"

definition digits_value :: "string \<Rightarrow> int" where
  "digits_value ds = foldl (\<lambda>n c. 10 * n + digit_value c) 0 ds"

definition decimal_value :: "string \<Rightarrow> rat" where
  "decimal_value s =
     (let whole = takeWhile (\<lambda>c. c \<noteq> CHR ''.'') s;
          fraction = drop 1 (dropWhile (\<lambda>c. c \<noteq> CHR ''.'') s);
          digits = (if take 1 whole = ''-'' then drop 1 whole else whole);
          magnitude = of_int (digits_value digits)
                      + of_int (digits_value fraction) / 10 ^ length fraction
      in if take 1 whole = ''-'' then - magnitude else magnitude)"

text \<open>
  A numeral is the number \<open>x\<close> with sign bit \<open>negative\<close> written to five places when it
  has exactly five fractional digits, starts with a minus sign just when the sign bit is
  set, and denotes a number nearest to \<open>x\<close> among the multiples of \<open>0.00001\<close>: at most
  half a unit of the fifth place away, and with an even fifth digit when exactly half a
  unit away.
\<close>

definition written_to_5_places :: "bool \<Rightarrow> rat \<Rightarrow> string \<Rightarrow> bool" where
  "written_to_5_places negative x s =
     (five_fraction_digits s
      \<and> (take 1 s = ''-'') = negative
      \<and> \<bar>decimal_value s - x\<bar> \<le> 1 / 200000
      \<and> (\<bar>decimal_value s - x\<bar> = 1 / 200000 \<longrightarrow> even \<lfloor>\<bar>decimal_value s\<bar> * 100000\<rfloor>))"

text \<open>
  What the oracle is handed for a coordinate: a finite one, zero of either sign included,
  written to five places; the other floats by their names.
\<close>

fun passed_as :: "pyfloat \<Rightarrow> string \<Rightarrow> bool" where
  "passed_as (Finite x) s = written_to_5_places (x < 0) x s"
| "passed_as Minus_zero s = written_to_5_places True 0 s"
| "passed_as Infinity s = (s = ''inf'')"
| "passed_as Minus_infinity s = (s = ''-inf'')"
| "passed_as NaN s = (s = ''nan'')"

subsection \<open>A store and an oracle to run the functions on\<close>

text \<open>
  Three airports in a chain and a small store: \<open>CALLSIGN1\<close> flies the chain,
  \<open>CALLSIGN2\<close> has no known route, \<open>CALLSIGN4\<close> has a route of a single airport, and
  the lookup of any other callsign but \<open>CALLSIGN5\<close> (below) raises. The oracle finds the position \<open>(11.5, 21.5)\<close>
  off the first segment (150 away) and on the second (2 away), finds the position
  \<open>(50, 50)\<close> off both and the position \<open>(10.5, 20.5)\<close> on the first, and raises
  on anything else, as on coordinates it cannot parse.
\<close>

definition airport_A :: airport where
  "airport_A = \<lparr>airport_iata = ''AAA'', airport_lat = Finite 10, airport_lon = Finite 20\<rparr>"

definition airport_B :: airport where
  "airport_B = \<lparr>airport_iata = ''BBB'', airport_lat = Finite 11, airport_lon = Finite 21\<rparr>"

definition airport_C :: airport where
  "airport_C = \<lparr>airport_iata = ''CCC'', airport_lat = Finite 12, airport_lon = Finite 22\<rparr>"

definition route_ABC :: "unit route" where
  "route_ABC = \<lparr>route_airport_codes = ''KAAA-KBBB-KCCC'',
                 route_airports = [airport_A, airport_B, airport_C],
                 route_plausible = None\<rparr>"

definition route_unknown :: "unit route" where
  "route_unknown = \<lparr>route_airport_codes = ''unknown'', route_airports = [],
                     route_plausible = None\<rparr>"

definition route_single :: "unit route" where
  "route_single = \<lparr>route_airport_codes = ''KAAA'', route_airports = [airport_A],
                    route_plausible = None\<rparr>"

text \<open>
  An airport whose latitude is not a number, and the route of \<open>CALLSIGN5\<close> that ends
  there.
\<close>

definition airport_N :: airport where
  "airport_N = \<lparr>airport_iata = ''NNN'', airport_lat = NaN, airport_lon = Finite 30\<rparr>"

definition route_AN :: "unit route" where
  "route_AN = \<lparr>route_airport_codes = ''KAAA-KNNN'',
                route_airports = [airport_A, airport_N],
                route_plausible = None\<rparr>"

definition store_ex :: "string \<Rightarrow> error + unit route" where
  "store_ex callsign =
     (if callsign = ''CALLSIGN1'' then Inr route_ABC
      else if callsign = ''CALLSIGN2'' then Inr route_unknown
      else if callsign = ''CALLSIGN4'' then Inr route_single
      else if callsign = ''CALLSIGN5'' then Inr route_AN
      else Inl (StoreUnavailable ''connection lost''))"

definition oracle_ex :: "check_args \<Rightarrow> error + bool \<times> int" where
  "oracle_ex args =
     (if args = (''11.5'', ''21.5'', ''10.00000'', ''20.00000'', ''11.00000'', ''21.00000'')
        then Inr (False, 150)
      else if args = (''11.5'', ''21.5'', ''11.00000'', ''21.00000'', ''12.00000'', ''22.00000'')
        then Inr (True, 2)
      else if args = (''50'', ''50'', ''10.00000'', ''20.00000'', ''11.00000'', ''21.00000'')
        then Inr (False, 2400)
      else if args = (''50'', ''50'', ''11.00000'', ''21.00000'', ''12.00000'', ''22.00000'')
        then Inr (False, 2300)
      else if args = (''10.5'', ''20.5'', ''10.00000'', ''20.00000'', ''11.00000'', ''21.00000'')
        then Inr (True, 1)
      else Inl (OracleFailure ''could not convert string to float''))"

text \<open>
  A second oracle, which differs from the first in one distance only: for the position
  \<open>(50, 50)\<close> it reports the last segment 7 away instead of 2300.
\<close>

definition oracle_near :: "check_args \<Rightarrow> error + bool \<times> int" where
  "oracle_near args =
     (if args = (''50'', ''50'', ''11.00000'', ''21.00000'', ''12.00000'', ''22.00000'')
        then Inr (False, 7)
      else oracle_ex args)"

text \<open>
  Requests of a batch: a plane on its route, a plane without a known route, a plane whose
  lookup raises, and a plane whose position is no number. Three batches of them.
\<close>

definition plane_on_route :: plane where
  "plane_on_route =
     \<lparr>plane_callsign = ''CALLSIGN1'', plane_lat = ''11.5'', plane_lng = ''21.5''\<rparr>"

definition plane_unknown :: plane where
  "plane_unknown =
     \<lparr>plane_callsign = ''CALLSIGN2'', plane_lat = ''11.5'', plane_lng = ''21.5''\<rparr>"

definition plane_not_stored :: plane where
  "plane_not_stored =
     \<lparr>plane_callsign = ''CALLSIGN3'', plane_lat = ''11.5'', plane_lng = ''21.5''\<rparr>"

definition plane_malformed :: plane where
  "plane_malformed =
     \<lparr>plane_callsign = ''CALLSIGN1'', plane_lat = ''x'', plane_lng = ''50''\<rparr>"

definition batch_mixed :: PlaneList where
  "batch_mixed = \<lparr>planes = [plane_on_route, plane_unknown]\<rparr>"

definition batch_failing :: PlaneList where
  "batch_failing = \<lparr>planes = [plane_on_route, plane_not_stored, plane_unknown]\<rparr>"

definition batch_malformed :: PlaneList where
  "batch_malformed = \<lparr>planes = [plane_malformed, plane_on_route]\<rparr>"

section \<open>The numerals written by \<open>.5f\<close>\<close>

text \<open>
  Whatever the sign and the magnitude, \<open>fixed_5\<close> writes a numeral with five
  fractional digits.
\<close>

lemma is_digit_digit_char: "d < 10 \<Longrightarrow> is_digit (digit_char d)"
proof -
  assume "d < 10"
  then have "nat d < length ''0123456789''" by simp
  then have "''0123456789'' ! nat d \<in> set ''0123456789''" by (rule nth_mem)
  then show ?thesis by (simp only: is_digit_def digit_char_def)
qed

lemma is_digit_not_point: "is_digit c \<Longrightarrow> c \<noteq> CHR ''.''"
  by (auto simp: is_digit_def)

lemma is_digit_not_minus: "is_digit c \<Longrightarrow> c \<noteq> CHR ''-''"
  by (auto simp: is_digit_def)

lemma decimal_digits: "list_all is_digit (decimal n)"
proof (induction n rule: decimal.induct)
  case (1 n)
  show ?case
  proof (cases "n < 10")
    case True
    then show ?thesis by (subst decimal.simps) (simp add: is_digit_digit_char)
  next
    case False
    have "n mod 10 < 10" by simp
    then have "is_digit (digit_char (n mod 10))" by (rule is_digit_digit_char)
    with False "1.IH" show ?thesis by (subst decimal.simps) simp
  qed
qed

lemma decimal_nonempty: "decimal n \<noteq> []"
  by (subst decimal.simps) simp

lemma numeral_parts:
  assumes sign: "sign = ''-'' \<or> sign = ''''"
    and whole: "ds \<noteq> []" "list_all is_digit ds"
  shows "takeWhile (\<lambda>c. c \<noteq> CHR ''.'') (sign @ ds @ ''.'' @ fs) = sign @ ds"
    and "drop 1 (dropWhile (\<lambda>c. c \<noteq> CHR ''.'') (sign @ ds @ ''.'' @ fs)) = fs"
    and "(take 1 (sign @ ds) = ''-'') = (sign = ''-'')"
    and "(if take 1 (sign @ ds) = ''-'' then drop 1 (sign @ ds) else sign @ ds) = ds"
    and "(take 1 (sign @ ds @ ''.'' @ fs) = ''-'') = (sign = ''-'')"
proof -
  let ?P = "\<lambda>c. c \<noteq> CHR ''.''"
  have before: "?P c" if "c \<in> set (sign @ ds)" for c
  proof -
    from that have "c \<in> set sign \<or> c \<in> set ds" by simp
    then show ?thesis
    proof
      assume "c \<in> set sign"
      with sign have "c = CHR ''-''" by auto
      then show ?thesis by simp
    next
      assume "c \<in> set ds"
      with whole(2) have "is_digit c" by (simp add: list_all_iff)
      then show ?thesis by (rule is_digit_not_point)
    qed
  qed
  have "takeWhile ?P ((sign @ ds) @ CHR ''.'' # fs)
      = (sign @ ds) @ takeWhile ?P (CHR ''.'' # fs)"
    by (rule takeWhile_append2) (rule before)
  then show "takeWhile ?P (sign @ ds @ ''.'' @ fs) = sign @ ds"
    by simp
  have "dropWhile ?P ((sign @ ds) @ CHR ''.'' # fs) = dropWhile ?P (CHR ''.'' # fs)"
    by (rule dropWhile_append2) (rule before)
  then show "drop 1 (dropWhile ?P (sign @ ds @ ''.'' @ fs)) = fs"
    by simp
  from whole obtain d ds' where ds: "ds = d # ds'" and d: "is_digit d"
    by (cases ds) auto
  from d have minus: "d \<noteq> CHR ''-''" by (rule is_digit_not_minus)
  show first: "(take 1 (sign @ ds) = ''-'') = (sign = ''-'')"
  proof (cases "sign = ''-''")
    case True
    then show ?thesis by simp
  next
    case False
    with sign have "sign = ''''" by simp
    with ds minus show ?thesis by simp
  qed
  show "(if take 1 (sign @ ds) = ''-'' then drop 1 (sign @ ds) else sign @ ds) = ds"
  proof (cases "sign = ''-''")
    case True
    then show ?thesis by simp
  next
    case False
    with sign have "sign = ''''" by simp
    with ds minus show ?thesis by simp
  qed
  from whole(1) have "take 1 (sign @ ds @ ''.'' @ fs) = take 1 (sign @ ds)"
    using sign by (cases ds) auto
  with first show "(take 1 (sign @ ds @ ''.'' @ fs) = ''-'') = (sign = ''-'')"
    by simp
qed

lemma five_fraction_digits_shape:
  assumes "sign = ''-'' \<or> sign = ''''"
    and "ds \<noteq> []" "list_all is_digit ds"
    and "length fs = 5" "list_all is_digit fs"
  shows "five_fraction_digits (sign @ ds @ ''.'' @ fs)"
  unfolding five_fraction_digits_def Let_def numeral_parts(1,2,4) [OF assms(1-3)]
  using assms by simp

lemma five_fraction_digits_fixed_5: "five_fraction_digits (fixed_5 negative magnitude)"
proof -
  define n where "n = round_half_even (magnitude * 100000)"
  define fs where "fs = [digit_char (n div 10000 mod 10), digit_char (n div 1000 mod 10),
            digit_char (n div 100 mod 10), digit_char (n div 10 mod 10),
            digit_char (n mod 10)]"
  define sign where "sign = (if negative then ''-'' else '''')"
  have "five_fraction_digits (sign @ decimal (n div 100000) @ ''.'' @ fs)"
  proof (rule five_fraction_digits_shape)
    show "sign = ''-'' \<or> sign = ''''" by (simp add: sign_def)
    show "decimal (n div 100000) \<noteq> []" by (rule decimal_nonempty)
    show "list_all is_digit (decimal (n div 100000))" by (rule decimal_digits)
    show "length fs = 5" by (simp add: fs_def)
    show "list_all is_digit fs" by (simp add: fs_def is_digit_digit_char)
  qed
  then show ?thesis
    by (simp only: fixed_5_def Let_def n_def fs_def sign_def)
qed

text \<open>
  The numeral that \<open>fixed_5\<close> writes denotes the magnitude rounded to the nearest
  multiple of \<open>0.00001\<close>, so that every float is passed on as \<open>passed_as\<close> says.
\<close>

lemma round_half_even_nearest:
  "\<bar>of_int (round_half_even y) - y\<bar> \<le> 1 / 2"
  "\<bar>of_int (round_half_even y) - y\<bar> = 1 / 2 \<Longrightarrow> even (round_half_even y)"
  "0 \<le> y \<Longrightarrow> 0 \<le> round_half_even y"
proof -
  have lower: "of_int \<lfloor>y\<rfloor> \<le> y" and upper: "y < of_int \<lfloor>y\<rfloor> + 1"
    by linarith+
  show "\<bar>of_int (round_half_even y) - y\<bar> \<le> 1 / 2"
    using lower upper by (simp add: round_half_even_def Let_def)
  show "even (round_half_even y)" if "\<bar>of_int (round_half_even y) - y\<bar> = 1 / 2"
    using that lower upper
    by (auto simp: round_half_even_def Let_def split: if_splits)
  show "0 \<le> round_half_even y" if "0 \<le> y"
    using that by (simp add: round_half_even_def Let_def)
qed

lemma digit_value_digit_char: "0 \<le> d \<Longrightarrow> d < 10 \<Longrightarrow> digit_value (digit_char d) = d"
proof -
  assume "0 \<le> d" "d < 10"
  then have "d = 0 \<or> d = 1 \<or> d = 2 \<or> d = 3 \<or> d = 4 \<or> d = 5 \<or> d = 6 \<or> d = 7
      \<or> d = 8 \<or> d = 9"
    by arith
  then show ?thesis
    by (elim disjE) (simp_all add: digit_value_def digit_char_def)
qed

lemma digits_value_snoc:
  "digits_value (ds @ [c]) = 10 * digits_value ds + digit_value c"
  by (simp add: digits_value_def)

lemma digits_value_decimal: "0 \<le> n \<Longrightarrow> digits_value (decimal n) = n"
proof (induction n rule: decimal.induct)
  case (1 n)
  show ?case
  proof (cases "n < 10")
    case True
    with "1.prems" show ?thesis
      by (subst decimal.simps) (simp add: digits_value_def digit_value_digit_char)
  next
    case False
    with "1.prems" have "digits_value (decimal (n div 10)) = n div 10"
      by (intro "1.IH") simp_all
    with False show ?thesis
      by (subst decimal.simps) (simp add: digits_value_snoc digit_value_digit_char)
  qed
qed

lemma mod_ten_step: "(m::int) mod (10 * k) = 10 * (m div 10 mod k) + m mod 10" if "0 \<le> k"
  using that zmod_zmult2_eq [of k m 10] by simp

lemma div_ten_step: "(m::int) div 10 div k = m div (10 * k)" if "0 \<le> k"
  using that zdiv_zmult2_eq [of k m 10] by simp

lemma five_digits_mod:
  "(n::int) mod 100000 = 10000 * (n div 10000 mod 10) + 1000 * (n div 1000 mod 10)
      + 100 * (n div 100 mod 10) + 10 * (n div 10 mod 10) + n mod 10"
proof -
  have "n mod 100000 = 10 * (n div 10 mod 10000) + n mod 10"
    using mod_ten_step [of 10000 n] by simp
  also have "n div 10 mod 10000 = 10 * (n div 100 mod 1000) + n div 10 mod 10"
    using mod_ten_step [of 1000 "n div 10"] div_ten_step [of 10 n] by simp
  also have "n div 100 mod 1000 = 10 * (n div 1000 mod 100) + n div 100 mod 10"
    using mod_ten_step [of 100 "n div 100"] zdiv_zmult2_eq [of 10 n 100] by simp
  also have "n div 1000 mod 100 = 10 * (n div 10000 mod 10) + n div 1000 mod 10"
    using mod_ten_step [of 10 "n div 1000"] zdiv_zmult2_eq [of 10 n 1000] by simp
  finally show ?thesis by simp
qed

lemma digits_value_five:
  assumes "0 \<le> n"
  shows "digits_value [digit_char (n div 10000 mod 10), digit_char (n div 1000 mod 10),
            digit_char (n div 100 mod 10), digit_char (n div 10 mod 10),
            digit_char (n mod 10)] = n mod 100000"
  by (simp add: digits_value_def digit_value_digit_char five_digits_mod [of n])

lemma decimal_value_shape:
  assumes "sign = ''-'' \<or> sign = ''''"
    and "ds \<noteq> []" "list_all is_digit ds"
  shows "decimal_value (sign @ ds @ ''.'' @ fs) =
    (if sign = ''-'' then - 1 else 1)
      * (of_int (digits_value ds) + of_int (digits_value fs) / 10 ^ length fs)"
  unfolding decimal_value_def Let_def numeral_parts(1,2,4) [OF assms]
  unfolding numeral_parts(3) [OF assms]
  by simp

lemma fixed_5_parts:
  obtains n where "n = round_half_even (magnitude * 100000)"
    and "fixed_5 negative magnitude =
      (if negative then ''-'' else '''') @ decimal (n div 100000) @ ''.''
        @ [digit_char (n div 10000 mod 10), digit_char (n div 1000 mod 10),
           digit_char (n div 100 mod 10), digit_char (n div 10 mod 10),
           digit_char (n mod 10)]"
  by (simp add: fixed_5_def Let_def)

lemma fixed_5_value:
  assumes "0 \<le> magnitude"
  shows "decimal_value (fixed_5 negative magnitude) =
    (if negative then - 1 else 1) * of_int (round_half_even (magnitude * 100000)) / 100000"
proof -
  obtain n where n: "n = round_half_even (magnitude * 100000)"
    and s: "fixed_5 negative magnitude =
      (if negative then ''-'' else '''') @ decimal (n div 100000) @ ''.''
        @ [digit_char (n div 10000 mod 10), digit_char (n div 1000 mod 10),
           digit_char (n div 100 mod 10), digit_char (n div 10 mod 10),
           digit_char (n mod 10)]"
    by (rule fixed_5_parts)
  from assms have "0 \<le> magnitude * 100000" by simp
  then have nonneg: "0 \<le> n" unfolding n by (rule round_half_even_nearest(3))
  then have whole: "digits_value (decimal (n div 100000)) = n div 100000"
    by (intro digits_value_decimal) simp
  have parts: "rat_of_int (n div 100000) + rat_of_int (n mod 100000) / 100000
      = rat_of_int n / 100000"
  proof -
    have "rat_of_int n = rat_of_int (100000 * (n div 100000) + n mod 100000)"
      by simp
    also have "\<dots> = 100000 * rat_of_int (n div 100000) + rat_of_int (n mod 100000)"
      by (simp only: of_int_add of_int_mult of_int_numeral)
    finally show ?thesis by simp
  qed
  have "decimal_value (fixed_5 negative magnitude) =
      (if (if negative then ''-'' else '''') = ''-'' then - 1 else 1)
        * (rat_of_int (n div 100000) + rat_of_int (n mod 100000) / 100000)"
    unfolding s
    by (subst decimal_value_shape)
      (simp_all add: decimal_nonempty decimal_digits whole digits_value_five [OF nonneg])
  with parts show ?thesis unfolding n by simp
qed

lemma fixed_5_written:
  assumes "0 \<le> magnitude"
  shows "written_to_5_places negative (if negative then - magnitude else magnitude)
    (fixed_5 negative magnitude)"
proof -
  let ?y = "magnitude * 100000"
  let ?n = "round_half_even ?y"
  let ?x = "if negative then - magnitude else magnitude"
  let ?v = "decimal_value (fixed_5 negative magnitude)"
  from assms have "0 \<le> ?y" by simp
  then have nonneg: "0 \<le> ?n" by (rule round_half_even_nearest(3))
  have v: "?v = (if negative then - 1 else 1) * rat_of_int ?n / 100000"
    using assms by (rule fixed_5_value)
  have distance: "\<bar>?v - ?x\<bar> = \<bar>rat_of_int ?n - ?y\<bar> / 100000"
  proof (cases negative)
    case True
    with v have "decimal_value (fixed_5 True magnitude) = - rat_of_int ?n / 100000"
      by simp
    then have "decimal_value (fixed_5 True magnitude) - (- magnitude)
        = - (rat_of_int ?n - ?y) / 100000"
      by simp
    then have "\<bar>decimal_value (fixed_5 True magnitude) - (- magnitude)\<bar>
        = \<bar>rat_of_int ?n - ?y\<bar> / 100000"
      by (simp only: abs_divide abs_minus abs_numeral)
    with True show ?thesis by simp
  next
    case False
    with v have "decimal_value (fixed_5 False magnitude) = rat_of_int ?n / 100000"
      by simp
    then have "decimal_value (fixed_5 False magnitude) - magnitude
        = (rat_of_int ?n - ?y) / 100000"
      by simp
    then have "\<bar>decimal_value (fixed_5 False magnitude) - magnitude\<bar>
        = \<bar>rat_of_int ?n - ?y\<bar> / 100000"
      by (simp only: abs_divide abs_numeral)
    with False show ?thesis by simp
  qed
  have scaled: "\<lfloor>\<bar>?v\<bar> * 100000\<rfloor> = ?n"
  proof -
    from nonneg have "\<bar>?v\<bar> = rat_of_int ?n / 100000"
      by (simp add: v)
    then show ?thesis by simp
  qed
  have "five_fraction_digits (fixed_5 negative magnitude)"
    by (rule five_fraction_digits_fixed_5)
  moreover have "(take 1 (fixed_5 negative magnitude) = ''-'') = negative"
  proof -
    obtain n where s: "fixed_5 negative magnitude =
      (if negative then ''-'' else '''') @ decimal (n div 100000) @ ''.''
        @ [digit_char (n div 10000 mod 10), digit_char (n div 1000 mod 10),
           digit_char (n div 100 mod 10), digit_char (n div 10 mod 10),
           digit_char (n mod 10)]"
      by (rule fixed_5_parts)
    have "(take 1 (fixed_5 negative magnitude) = ''-'')
        = ((if negative then ''-'' else '''') = ''-'')"
      unfolding s
      by (rule numeral_parts(5)) (simp_all add: decimal_nonempty decimal_digits)
    also have "\<dots> = negative" by simp
    finally show ?thesis .
  qed
  moreover have "\<bar>?v - ?x\<bar> \<le> 1 / 200000"
    using round_half_even_nearest(1) [of ?y] by (simp add: distance)
  moreover have "even \<lfloor>\<bar>?v\<bar> * 100000\<rfloor>" if "\<bar>?v - ?x\<bar> = 1 / 200000"
  proof -
    from that have "\<bar>rat_of_int ?n - ?y\<bar> = 1 / 2" by (simp add: distance)
    then have "even ?n" by (rule round_half_even_nearest(2))
    then show ?thesis by (simp only: scaled)
  qed
  ultimately show ?thesis
    unfolding written_to_5_places_def by blast
qed

lemma passed_as_format_5f: "passed_as x (format_5f x)"
proof (cases x)
  case (Finite q)
  have "written_to_5_places (q < 0) (if q < 0 then - \<bar>q\<bar> else \<bar>q\<bar>) (fixed_5 (q < 0) \<bar>q\<bar>)"
    by (rule fixed_5_written) simp
  moreover have "(if q < 0 then - \<bar>q\<bar> else \<bar>q\<bar>) = q" by simp
  ultimately show ?thesis using Finite by simp
next
  case Minus_zero
  have "written_to_5_places True (if True then - 0 else 0) (fixed_5 True 0)"
    by (rule fixed_5_written) simp
  with Minus_zero show ?thesis by simp
qed simp_all

section \<open>The loop over the segments\<close>

text \<open>
  The loop unfolds one iteration at a time. The oracle calls of a walk that starts at
  index \<open>a\<close> are the segments from \<open>a\<close> on, up to and including the first at which the
  oracle ends the walk.
\<close>

lemma upto_first_length: "length (upto_first P xs) \<le> length xs"
  by (induction xs) auto

lemma upto_first_prefix: "i < length (upto_first P xs) \<Longrightarrow> upto_first P xs ! i = xs ! i"
proof (induction xs arbitrary: i)
  case Nil
  then show ?case by simp
next
  case (Cons x xs)
  then show ?case by (cases i) (auto split: if_splits)
qed

lemma upto_first_inner: "Suc i < length (upto_first P xs) \<Longrightarrow> \<not> P (upto_first P xs ! i)"
proof (induction xs arbitrary: i)
  case Nil
  then show ?case by simp
next
  case (Cons x xs)
  then show ?case by (cases i) (auto split: if_splits)
qed

lemma upto_first_nonempty: "xs \<noteq> [] \<Longrightarrow> upto_first P xs \<noteq> []"
  by (cases xs) auto

lemma upto_first_early: "length (upto_first P xs) < length xs \<Longrightarrow> P (last (upto_first P xs))"
proof (induction xs)
  case Nil
  then show ?case by simp
next
  case (Cons x xs)
  show ?case
  proof (cases "P x")
    case True
    then show ?thesis by simp
  next
    case False
    with Cons.prems have "length (upto_first P xs) < length xs" by simp
    then have "P (last (upto_first P xs))" and "xs \<noteq> []"
      using Cons.IH by auto
    with False show ?thesis by (simp add: upto_first_nonempty)
  qed
qed

lemma segment_loop_exit:
  "\<not> int a < int (length airports) - 1 \<Longrightarrow>
     segment_loop plausible lat lng airports a p d = ([], Inr (p, d))"
  by (simp add: segment_loop.simps)

lemma segment_loop_step:
  "int a < int (length airports) - 1 \<Longrightarrow>
     segment_loop plausible lat lng airports a p d =
       (case plausible (segment_args lat lng airports a) of
          Inl e \<Rightarrow> (segment_events lat lng airports a, Inl e)
        | Inr (p', d') \<Rightarrow>
            if p' then (segment_events lat lng airports a, Inr (p', d'))
            else (segment_events lat lng airports a
                    @ fst (segment_loop plausible lat lng airports (Suc a) p' d'),
                  snd (segment_loop plausible lat lng airports (Suc a) p' d')))"
  by (subst segment_loop.simps)
     (simp add: Let_def segment_args_def segment_events_def split: sum.splits prod.splits)

lemma oracle_calls_append: "oracle_calls (xs @ ys) = oracle_calls xs @ oracle_calls ys"
  by (induction xs rule: oracle_calls.induct) simp_all

lemma oracle_calls_segment_events:
  "oracle_calls (segment_events lat lng airports a) = [segment_args lat lng airports a]"
  by (simp add: segment_events_def)

lemma segment_loop_calls:
  "oracle_calls (fst (segment_loop plausible lat lng airports a p d)) =
     upto_first (ends_walk plausible)
       (map (segment_args lat lng airports) [a..<length airports - 1])"
proof (induction "length airports - a" arbitrary: a p d)
  case 0
  then show ?case by (simp add: segment_loop_exit)
next
  case (Suc n)
  show ?case
  proof (cases "int a < int (length airports) - 1")
    case False
    then show ?thesis by (simp add: segment_loop_exit)
  next
    case True
    then have upt: "[a..<length airports - 1] = a # [Suc a..<length airports - 1]"
      by (simp add: upt_conv_Cons)
    from Suc.hyps have "n = length airports - Suc a" by simp
    note IH = Suc.hyps(1) [OF this]
    show ?thesis
      unfolding upt segment_loop_step [OF True]
      by (simp add: ends_walk_def oracle_calls_append oracle_calls_segment_events IH
          split: sum.splits prod.splits)
  qed
qed

lemma segment_loop_raise:
  "args \<in> set (oracle_calls (fst (segment_loop plausible lat lng airports a p d))) \<Longrightarrow>
   plausible args = Inl e \<Longrightarrow>
   snd (segment_loop plausible lat lng airports a p d) = Inl e"
proof (induction "length airports - a" arbitrary: a p d)
  case 0
  then show ?case by (simp add: segment_loop_exit)
next
  case (Suc n)
  show ?case
  proof (cases "int a < int (length airports) - 1")
    case False
    with Suc.prems show ?thesis by (simp add: segment_loop_exit)
  next
    case True
    from Suc.hyps have n: "n = length airports - Suc a" by simp
    note IH = Suc.hyps(1) [OF n]
    from Suc.prems show ?thesis
      unfolding segment_loop_step [OF True]
      by (auto simp: oracle_calls_append oracle_calls_segment_events
          split: sum.splits prod.splits if_splits dest: IH)
  qed
qed

lemma segment_loop_cong:
  "(\<And>args. args \<in> set (oracle_calls (fst (segment_loop plausible lat lng airports a p d)))
      \<Longrightarrow> plausible args = plausible' args) \<Longrightarrow>
   segment_loop plausible' lat lng airports a p d
     = segment_loop plausible lat lng airports a p d"
proof (induction "length airports - a" arbitrary: a p d)
  case 0
  then show ?case by (simp add: segment_loop_exit)
next
  case (Suc n)
  show ?case
  proof (cases "int a < int (length airports) - 1")
    case False
    then show ?thesis by (simp add: segment_loop_exit)
  next
    case True
    from Suc.hyps have n: "n = length airports - Suc a" by simp
    note IH = Suc.hyps(1) [OF n]
    have here: "plausible' (segment_args lat lng airports a)
        = plausible (segment_args lat lng airports a)"
      by (rule Suc.prems [symmetric])
        (simp add: segment_loop_step [OF True] oracle_calls_append oracle_calls_segment_events
          split: sum.splits prod.splits)
    show ?thesis
    proof (cases "plausible (segment_args lat lng airports a)")
      case (Inl e)
      with here show ?thesis by (simp add: segment_loop_step [OF True])
    next
      case (Inr pd)
      obtain p' d' where pd: "pd = (p', d')" by (cases pd)
      show ?thesis
      proof (cases p')
        case True
        with here Inr pd show ?thesis
          by (simp add: segment_loop_step [OF \<open>int a < int (length airports) - 1\<close>])
      next
        case False
        have "segment_loop plausible' lat lng airports (Suc a) p' d'
            = segment_loop plausible lat lng airports (Suc a) p' d'"
        proof (rule IH)
          fix args
          assume "args \<in> set (oracle_calls
            (fst (segment_loop plausible lat lng airports (Suc a) p' d')))"
          with Inr pd False show "plausible args = plausible' args"
            by (intro Suc.prems)
              (simp add: segment_loop_step [OF True] oracle_calls_append
                oracle_calls_segment_events)
        qed
        with here Inr pd False show ?thesis
          by (simp add: segment_loop_step [OF True])
      qed
    qed
  qed
qed

lemma segment_loop_implausible:
  assumes "int a < int (length airports) - 1"
    and "\<And>i. a \<le> i \<Longrightarrow> i < length airports - 1 \<Longrightarrow>
           \<exists>d'. plausible (segment_args lat lng airports i) = Inr (False, d')"
  shows "\<exists>d'. plausible (segment_args lat lng airports (length airports - 2)) = Inr (False, d')
           \<and> snd (segment_loop plausible lat lng airports a p d) = Inr (False, d')"
  using assms
proof (induction "length airports - a" arbitrary: a p d)
  case 0
  then show ?case by simp
next
  case (Suc n)
  from Suc.hyps have n: "n = length airports - Suc a" by simp
  note IH = Suc.hyps(1) [OF n]
  from Suc.prems(1) have "a < length airports - 1" by linarith
  with Suc.prems(2) [of a] obtain d1
    where d1: "plausible (segment_args lat lng airports a) = Inr (False, d1)"
    by auto
  show ?case
  proof (cases "int (Suc a) < int (length airports) - 1")
    case True
    have "\<exists>d'. plausible (segment_args lat lng airports (length airports - 2)) = Inr (False, d')
           \<and> snd (segment_loop plausible lat lng airports (Suc a) False d1) = Inr (False, d')"
      using True Suc.prems(2) by (intro IH) auto
    with d1 show ?thesis
      by (simp add: segment_loop_step [OF Suc.prems(1)])
  next
    case False
    with Suc.prems(1) have "length airports - 2 = a" by linarith
    with d1 have "plausible (segment_args lat lng airports (length airports - 2))
        = Inr (False, d1)"
      by simp
    moreover from d1 False
    have "snd (segment_loop plausible lat lng airports a p d) = Inr (False, d1)"
      by (simp add: segment_loop_step [OF Suc.prems(1)] segment_loop_exit)
    ultimately show ?thesis by blast
  qed
qed

lemma segment_loop_formats:
  assumes "args \<in> set (oracle_calls (fst (segment_loop plausible lat lng airports a p d)))"
  shows "\<exists>i. i + 1 < length airports \<and> args = segment_args lat lng airports i"
proof -
  let ?segs = "map (segment_args lat lng airports) [a..<length airports - 1]"
  from assms have "args \<in> set (upto_first (ends_walk plausible) ?segs)"
    by (simp only: segment_loop_calls)
  then obtain k where k: "k < length (upto_first (ends_walk plausible) ?segs)"
    and args: "args = upto_first (ends_walk plausible) ?segs ! k"
    by (auto simp: in_set_conv_nth)
  from k have bound: "k < length [a..<length airports - 1]"
    using upto_first_length [of "ends_walk plausible" ?segs] by simp
  with args k have "args = segment_args lat lng airports ([a..<length airports - 1] ! k)"
    by (simp add: upto_first_prefix)
  moreover from bound have "[a..<length airports - 1] ! k = a + k"
    and "a + k + 1 < length airports"
    by simp_all
  ultimately have "a + k + 1 < length airports \<and> args = segment_args lat lng airports (a + k)"
    by simp
  then show ?thesis ..
qed

section \<open>One resolution and a batch of them\<close>

text \<open>
  The outcome of a resolution in terms of the outcome of its loop, and the outcome of a
  batch in terms of the outcomes of its items.
\<close>

lemma resolve_calls:
  "oracle_calls (fst (get_route_for_callsign_lat_lng get_route plausible callsign lat lng)) =
     (case get_route callsign of
        Inl e \<Rightarrow> []
      | Inr route \<Rightarrow>
          if route_airport_codes route \<noteq> ''unknown''
          then oracle_calls (fst (segment_loop plausible lat lng (route_airports route) 0 False 0))
          else [])"
  by (simp add: get_route_for_callsign_lat_lng_def oracle_calls_append
      split: sum.splits prod.splits)

lemma resolve_known:
  "get_route callsign = Inr route \<Longrightarrow> route_airport_codes route \<noteq> ''unknown'' \<Longrightarrow>
   get_route_for_callsign_lat_lng get_route plausible callsign lat lng =
     (case snd (segment_loop plausible lat lng (route_airports route) 0 False 0) of
        Inl e \<Rightarrow>
          (Print_callsign callsign
             # fst (segment_loop plausible lat lng (route_airports route) 0 False 0),
           Inl e)
      | Inr (is_plausible, distance) \<Rightarrow>
          (Print_callsign callsign
             # fst (segment_loop plausible lat lng (route_airports route) 0 False 0)
             @ [if \<not> is_plausible then Print_implausible lat lng distance else Print_ok],
           Inr (route\<lparr>route_plausible := Some is_plausible\<rparr>)))"
  by (simp add: get_route_for_callsign_lat_lng_def split: sum.splits prod.splits)

lemma routeset_loop_step:
  "routeset_loop get_route plausible (p # rest) response =
     (case snd (resolve_plane get_route plausible p) of
        Inl e \<Rightarrow> (fst (resolve_plane get_route plausible p), Inl e)
      | Inr route \<Rightarrow>
          (fst (resolve_plane get_route plausible p)
             @ fst (routeset_loop get_route plausible rest (response @ [route])),
           snd (routeset_loop get_route plausible rest (response @ [route]))))"
  by (simp split: prod.splits sum.splits)

lemma routeset_loop_all_resolved:
  assumes "\<forall>p \<in> set ps. \<exists>r. snd (resolve_plane get_route plausible p) = Inr r"
  shows "\<exists>routes. snd (routeset_loop get_route plausible ps response) = Inr (response @ routes)
    \<and> length routes = length ps
    \<and> (\<forall>i < length ps. snd (resolve_plane get_route plausible (ps ! i)) = Inr (routes ! i))"
  using assms
proof (induction ps arbitrary: response)
  case Nil
  then show ?case by simp
next
  case (Cons p ps)
  from Cons.prems obtain r where r: "snd (resolve_plane get_route plausible p) = Inr r"
    by auto
  from Cons.prems have "\<forall>q \<in> set ps. \<exists>r. snd (resolve_plane get_route plausible q) = Inr r"
    by simp
  from Cons.IH [OF this, of "response @ [r]"] obtain routes
    where loop: "snd (routeset_loop get_route plausible ps (response @ [r]))
        = Inr (response @ r # routes)"
      and len: "length routes = length ps"
      and nth: "\<forall>i < length ps. snd (resolve_plane get_route plausible (ps ! i))
        = Inr (routes ! i)"
    by auto
  have "snd (routeset_loop get_route plausible (p # ps) response) = Inr (response @ r # routes)"
    using r loop by (simp only: routeset_loop_step) simp
  moreover have "length (r # routes) = length (p # ps)" using len by simp
  moreover have "\<forall>i < length (p # ps).
      snd (resolve_plane get_route plausible ((p # ps) ! i)) = Inr ((r # routes) ! i)"
    using r nth by (auto simp: nth_Cons split: nat.splits)
  ultimately show ?case by blast
qed

lemma routeset_loop_first_failure:
  assumes "\<forall>q \<in> set earlier. \<exists>r. snd (resolve_plane get_route plausible q) = Inr r"
    and "snd (resolve_plane get_route plausible p) = Inl e"
  shows "routeset_loop get_route plausible (earlier @ p # later) response =
    (concat (map (\<lambda>q. fst (resolve_plane get_route plausible q)) (earlier @ [p])), Inl e)"
  using assms(1)
proof (induction earlier arbitrary: response)
  case Nil
  from assms(2) show ?case by (simp only: routeset_loop_step append_Nil) simp
next
  case (Cons q earlier)
  from Cons.prems obtain r where r: "snd (resolve_plane get_route plausible q) = Inr r"
    by auto
  from Cons.prems
  have "\<forall>q \<in> set earlier. \<exists>r. snd (resolve_plane get_route plausible q) = Inr r"
    by simp
  from Cons.IH [OF this, of "response @ [r]"] r show ?case
    by (simp only: routeset_loop_step append_Cons) simp
qed

lemma api_routeset_unfold:
  "api_routeset get_route plausible planeList =
     (Print_planeList planeList
        # fst (routeset_loop get_route plausible (planes planeList) []),
      case snd (routeset_loop get_route plausible (planes planeList) []) of
        Inl e \<Rightarrow> Inl e
      | Inr response \<Rightarrow>
          Inr \<lparr>content = response, headers = [(''Access-Control-Allow-Origin'', ''*'')]\<rparr>)"
  by (simp add: api_routeset_def split: prod.splits sum.splits)

section \<open>Runs on the example store\<close>

text \<open>The example runs, evaluated: their events and what they return.\<close>

lemma fixed_examples:
  "fixed_5 False 10 = ''10.00000''" "fixed_5 False 11 = ''11.00000''"
  "fixed_5 False 12 = ''12.00000''" "fixed_5 False 20 = ''20.00000''"
  "fixed_5 False 21 = ''21.00000''" "fixed_5 False 22 = ''22.00000''"
  "fixed_5 False 30 = ''30.00000''"
  by (simp_all add: fixed_5_def round_half_even_def decimal.simps digit_char_def)

lemmas example_defs =
  store_ex_def route_ABC_def route_unknown_def route_single_def route_AN_def
  airport_A_def airport_B_def airport_C_def airport_N_def

lemma segments_ABC:
  "segment_args lat lng (route_airports route_ABC) 0
     = (lat, lng, ''10.00000'', ''20.00000'', ''11.00000'', ''21.00000'')"
  "segment_args lat lng (route_airports route_ABC) 1
     = (lat, lng, ''11.00000'', ''21.00000'', ''12.00000'', ''22.00000'')"
  "segment_args lat lng (route_airports route_ABC) (Suc 0)
     = (lat, lng, ''11.00000'', ''21.00000'', ''12.00000'', ''22.00000'')"
  by (simp_all add: segment_args_def example_defs fixed_examples)

lemma run_on_route:
  "get_route_for_callsign_lat_lng store_ex oracle_ex ''CALLSIGN1'' ''11.5'' ''21.5'' =
     ([Print_callsign ''CALLSIGN1'',
       Print_checking ''AAA'' ''BBB'',
       Call_plausible (''11.5'', ''21.5'', ''10.00000'', ''20.00000'', ''11.00000'', ''21.00000''),
       Print_checking ''BBB'' ''CCC'',
       Call_plausible (''11.5'', ''21.5'', ''11.00000'', ''21.00000'', ''12.00000'', ''22.00000''),
       Print_ok],
      Inr (route_ABC\<lparr>route_plausible := Some True\<rparr>))"
  by (simp add: get_route_for_callsign_lat_lng_def example_defs oracle_ex_def
      segment_loop.simps fixed_examples)

lemma run_off_route:
  "get_route_for_callsign_lat_lng store_ex oracle_ex ''CALLSIGN1'' ''50'' ''50'' =
     ([Print_callsign ''CALLSIGN1'',
       Print_checking ''AAA'' ''BBB'',
       Call_plausible (''50'', ''50'', ''10.00000'', ''20.00000'', ''11.00000'', ''21.00000''),
       Print_checking ''BBB'' ''CCC'',
       Call_plausible (''50'', ''50'', ''11.00000'', ''21.00000'', ''12.00000'', ''22.00000''),
       Print_implausible ''50'' ''50'' 2300],
      Inr (route_ABC\<lparr>route_plausible := Some False\<rparr>))"
  by (simp add: get_route_for_callsign_lat_lng_def example_defs oracle_ex_def
      segment_loop.simps fixed_examples)

lemma run_off_route_near:
  "get_route_for_callsign_lat_lng store_ex oracle_near ''CALLSIGN1'' ''50'' ''50'' =
     ([Print_callsign ''CALLSIGN1'',
       Print_checking ''AAA'' ''BBB'',
       Call_plausible (''50'', ''50'', ''10.00000'', ''20.00000'', ''11.00000'', ''21.00000''),
       Print_checking ''BBB'' ''CCC'',
       Call_plausible (''50'', ''50'', ''11.00000'', ''21.00000'', ''12.00000'', ''22.00000''),
       Print_implausible ''50'' ''50'' 7],
      Inr (route_ABC\<lparr>route_plausible := Some False\<rparr>))"
  by (simp add: get_route_for_callsign_lat_lng_def example_defs oracle_ex_def oracle_near_def
      segment_loop.simps fixed_examples)

lemma run_malformed:
  "get_route_for_callsign_lat_lng store_ex oracle_ex ''CALLSIGN1'' ''x'' ''50'' =
     ([Print_callsign ''CALLSIGN1'',
       Print_checking ''AAA'' ''BBB'',
       Call_plausible (''x'', ''50'', ''10.00000'', ''20.00000'', ''11.00000'', ''21.00000'')],
      Inl (OracleFailure ''could not convert string to float''))"
  by (simp add: get_route_for_callsign_lat_lng_def example_defs oracle_ex_def
      segment_loop.simps fixed_examples)

lemma run_first_segment:
  "get_route_for_callsign_lat_lng store_ex oracle_ex ''CALLSIGN1'' ''10.5'' ''20.5'' =
     ([Print_callsign ''CALLSIGN1'',
       Print_checking ''AAA'' ''BBB'',
       Call_plausible (''10.5'', ''20.5'', ''10.00000'', ''20.00000'', ''11.00000'', ''21.00000''),
       Print_ok],
      Inr (route_ABC\<lparr>route_plausible := Some True\<rparr>))"
  by (simp add: get_route_for_callsign_lat_lng_def example_defs oracle_ex_def
      segment_loop.simps fixed_examples)

lemma run_not_a_number:
  "get_route_for_callsign_lat_lng store_ex oracle_ex ''CALLSIGN5'' ''11.5'' ''21.5'' =
     ([Print_callsign ''CALLSIGN5'',
       Print_checking ''AAA'' ''NNN'',
       Call_plausible (''11.5'', ''21.5'', ''10.00000'', ''20.00000'', ''nan'', ''30.00000'')],
      Inl (OracleFailure ''could not convert string to float''))"
  by (simp add: get_route_for_callsign_lat_lng_def example_defs oracle_ex_def
      segment_loop.simps fixed_examples)

lemma run_unknown:
  "get_route_for_callsign_lat_lng store_ex oracle_ex ''CALLSIGN2'' ''11.5'' ''21.5'' =
     ([], Inr route_unknown)"
  by (simp add: get_route_for_callsign_lat_lng_def example_defs)

lemma run_not_stored:
  "get_route_for_callsign_lat_lng store_ex oracle_ex ''CALLSIGN3'' ''11.5'' ''21.5'' =
     ([], Inl (StoreUnavailable ''connection lost''))"
  by (simp add: get_route_for_callsign_lat_lng_def example_defs)

lemma run_single:
  "get_route_for_callsign_lat_lng store_ex oracle_ex ''CALLSIGN4'' ''11.5'' ''21.5'' =
     ([Print_callsign ''CALLSIGN4'', Print_implausible ''11.5'' ''21.5'' 0],
      Inr (route_single\<lparr>route_plausible := Some False\<rparr>))"
  by (simp add: get_route_for_callsign_lat_lng_def example_defs segment_loop.simps)

section \<open>Unknown routes\<close>

text \<open>
  C2. When the record fetched from the store has \<open>airport_codes\<close> equal to \<open>"unknown"\<close>,
  the resolver returns that very record, the \<open>plausible\<close> key as the store left it, and
  the run makes no oracle call (it prints nothing either).
\<close>

theorem unknown_route_returned_unchanged:
  assumes "get_route callsign = Inr route"
    and "route_airport_codes route = ''unknown''"
  shows "snd (get_route_for_callsign_lat_lng get_route plausible callsign lat lng) = Inr route
    \<and> oracle_calls (fst (get_route_for_callsign_lat_lng get_route plausible callsign lat lng)) = []"
  using assms by (simp add: get_route_for_callsign_lat_lng_def)

theorem unknown_route_returned_unchanged_witness:
  "store_ex ''CALLSIGN2'' = Inr route_unknown
   \<and> route_airport_codes route_unknown = ''unknown''
   \<and> snd (get_route_for_callsign_lat_lng store_ex oracle_ex ''CALLSIGN2'' ''11.5'' ''21.5'')
       = Inr route_unknown
   \<and> oracle_calls
        (fst (get_route_for_callsign_lat_lng store_ex oracle_ex ''CALLSIGN2'' ''11.5'' ''21.5''))
       = []"
proof -
  have fetched: "store_ex ''CALLSIGN2'' = Inr route_unknown"
    by (simp add: store_ex_def)
  have codes: "route_airport_codes route_unknown = ''unknown''"
    by (simp add: route_unknown_def)
  from unknown_route_returned_unchanged
      [of store_ex "''CALLSIGN2''" route_unknown oracle_ex "''11.5''" "''21.5''"]
    fetched codes
  show ?thesis by simp
qed

section \<open>The walk along the chain\<close>

text \<open>
  C3. For a known route of \<open>N \<ge> 2\<close> airports the resolver calls the oracle at least once
  and at most \<open>N - 1\<close> times. Call number \<open>i\<close> is the check of the segment
  \<open>(airports[i], airports[i+1])\<close>, so the calls are the consecutive segments in chain order
  from the start. Every call but the last was answered implausible, and when the walk ends
  before the last segment, its last call was answered plausible or raised: the walk stops
  at the first plausible segment.
\<close>

theorem oracle_calls_are_consecutive_segments:
  assumes "get_route callsign = Inr route"
    and "route_airport_codes route \<noteq> ''unknown''"
    and "2 \<le> length (route_airports route)"
    and "calls = oracle_calls
           (fst (get_route_for_callsign_lat_lng get_route plausible callsign lat lng))"
  shows "calls \<noteq> [] \<and> length calls \<le> length (route_airports route) - 1
    \<and> (\<forall>i < length calls. calls ! i = segment_args lat lng (route_airports route) i)
    \<and> (\<forall>i. Suc i < length calls \<longrightarrow> (\<exists>d. plausible (calls ! i) = Inr (False, d)))
    \<and> (length calls < length (route_airports route) - 1 \<longrightarrow>
          (\<exists>d. plausible (last calls) = Inr (True, d)) \<or> (\<exists>e. plausible (last calls) = Inl e))"
proof -
  let ?segs = "map (segment_args lat lng (route_airports route))
      [0..<length (route_airports route) - 1]"
  from assms have calls: "calls = upto_first (ends_walk plausible) ?segs"
    by (simp add: resolve_calls segment_loop_calls)
  from assms(3) have "?segs \<noteq> []" by simp
  then have "calls \<noteq> []" unfolding calls by (rule upto_first_nonempty)
  moreover have len: "length calls \<le> length (route_airports route) - 1"
    unfolding calls using upto_first_length [of "ends_walk plausible" ?segs] by simp
  moreover have "calls ! i = segment_args lat lng (route_airports route) i"
    if "i < length calls" for i
  proof -
    from that len have "i < length (route_airports route) - 1" by simp
    with that show ?thesis unfolding calls by (simp add: upto_first_prefix)
  qed
  moreover have "\<exists>d. plausible (calls ! i) = Inr (False, d)" if "Suc i < length calls" for i
  proof -
    from that have "\<not> ends_walk plausible (calls ! i)"
      unfolding calls by (rule upto_first_inner)
    then show ?thesis
      by (auto simp: ends_walk_def split: sum.splits prod.splits)
  qed
  moreover have "(\<exists>d. plausible (last calls) = Inr (True, d))
      \<or> (\<exists>e. plausible (last calls) = Inl e)"
    if "length calls < length (route_airports route) - 1"
  proof -
    from that have "length (upto_first (ends_walk plausible) ?segs) < length ?segs"
      unfolding calls by simp
    then have "ends_walk plausible (last calls)"
      unfolding calls by (rule upto_first_early)
    then show ?thesis
      by (auto simp: ends_walk_def split: sum.splits prod.splits)
  qed
  ultimately show ?thesis by blast
qed

theorem oracle_calls_are_consecutive_segments_witness:
  "store_ex ''CALLSIGN1'' = Inr route_ABC
   \<and> route_airport_codes route_ABC \<noteq> ''unknown''
   \<and> 2 \<le> length (route_airports route_ABC)
   \<and> (let calls = oracle_calls
          (fst (get_route_for_callsign_lat_lng store_ex oracle_ex ''CALLSIGN1'' ''11.5'' ''21.5''))
      in length calls = 2
         \<and> calls ! 0 = segment_args ''11.5'' ''21.5'' (route_airports route_ABC) 0
         \<and> calls ! 1 = segment_args ''11.5'' ''21.5'' (route_airports route_ABC) 1
         \<and> (\<exists>d. oracle_ex (calls ! 0) = Inr (False, d)))
   \<and> (let calls = oracle_calls
          (fst (get_route_for_callsign_lat_lng store_ex oracle_ex ''CALLSIGN1'' ''10.5'' ''20.5''))
      in length calls = 1
         \<and> calls ! 0 = segment_args ''10.5'' ''20.5'' (route_airports route_ABC) 0
         \<and> ((\<exists>d. oracle_ex (last calls) = Inr (True, d))
              \<or> (\<exists>e. oracle_ex (last calls) = Inl e)))"
proof -
  have fetched: "store_ex ''CALLSIGN1'' = Inr route_ABC"
    by (simp add: store_ex_def)
  have known: "route_airport_codes route_ABC \<noteq> ''unknown''"
    by (simp add: route_ABC_def)
  have chain: "2 \<le> length (route_airports route_ABC)"
    by (simp add: route_ABC_def)
  define calls where "calls = oracle_calls
    (fst (get_route_for_callsign_lat_lng store_ex oracle_ex ''CALLSIGN1'' ''11.5'' ''21.5''))"
  define calls' where "calls' = oracle_calls
    (fst (get_route_for_callsign_lat_lng store_ex oracle_ex ''CALLSIGN1'' ''10.5'' ''20.5''))"
  have len: "length calls = 2" and len': "length calls' = 1"
    by (simp_all add: calls_def calls'_def run_on_route run_first_segment)
  note two = oracle_calls_are_consecutive_segments
    [of store_ex "''CALLSIGN1''" route_ABC calls oracle_ex "''11.5''" "''21.5''",
      OF fetched known chain calls_def]
  note one = oracle_calls_are_consecutive_segments
    [of store_ex "''CALLSIGN1''" route_ABC calls' oracle_ex "''10.5''" "''20.5''",
      OF fetched known chain calls'_def]
  from two have segments: "\<forall>i < length calls.
      calls ! i = segment_args ''11.5'' ''21.5'' (route_airports route_ABC) i"
    and inner: "\<forall>i. Suc i < length calls \<longrightarrow> (\<exists>d. oracle_ex (calls ! i) = Inr (False, d))"
    by blast+
  from one have segments': "\<forall>i < length calls'.
      calls' ! i = segment_args ''10.5'' ''20.5'' (route_airports route_ABC) i"
    and early: "length calls' < length (route_airports route_ABC) - 1 \<longrightarrow>
      (\<exists>d. oracle_ex (last calls') = Inr (True, d))
       \<or> (\<exists>e. oracle_ex (last calls') = Inl e)"
    by blast+
  from segments [rule_format, of 0] segments [rule_format, of 1] inner [rule_format, of 0] len
  have "calls ! 0 = segment_args ''11.5'' ''21.5'' (route_airports route_ABC) 0"
    and "calls ! 1 = segment_args ''11.5'' ''21.5'' (route_airports route_ABC) 1"
    and "\<exists>d. oracle_ex (calls ! 0) = Inr (False, d)"
    by simp_all
  moreover from segments' [rule_format, of 0] early len'
  have "calls' ! 0 = segment_args ''10.5'' ''20.5'' (route_airports route_ABC) 0"
    and "(\<exists>d. oracle_ex (last calls') = Inr (True, d))
       \<or> (\<exists>e. oracle_ex (last calls') = Inl e)"
    by (simp_all add: route_ABC_def)
  ultimately show ?thesis
    using fetched known chain len len'
    unfolding calls_def calls'_def Let_def by blast
qed

text \<open>
  C4, as the code has it. On a known route of \<open>N \<ge> 2\<close> airports for whose segments the
  oracle answers implausible throughout, the resolver returns the fetched record with
  \<open>plausible\<close> set to false, and the distance it retains, printed in the last line of its
  trace, is the one the oracle reported for the last segment, \<open>N - 2\<close> to \<open>N - 1\<close>. The
  record is given no distance: line 213 writes the key \<open>plausible\<close> and nothing else.
\<close>

theorem implausible_route_reports_last_distance:
  assumes "get_route callsign = Inr route"
    and "route_airport_codes route \<noteq> ''unknown''"
    and "2 \<le> length (route_airports route)"
    and "\<forall>i < length (route_airports route) - 1.
           \<exists>d. plausible (segment_args lat lng (route_airports route) i) = Inr (False, d)"
  shows "\<exists>d. plausible (segment_args lat lng (route_airports route)
                 (length (route_airports route) - 2)) = Inr (False, d)
    \<and> snd (get_route_for_callsign_lat_lng get_route plausible callsign lat lng)
        = Inr (route\<lparr>route_plausible := Some False\<rparr>)
    \<and> last (fst (get_route_for_callsign_lat_lng get_route plausible callsign lat lng))
        = Print_implausible lat lng d"
proof -
  from assms(3) have "int 0 < int (length (route_airports route)) - 1" by simp
  moreover from assms(4)
  have "\<And>i. 0 \<le> i \<Longrightarrow> i < length (route_airports route) - 1 \<Longrightarrow>
      \<exists>d. plausible (segment_args lat lng (route_airports route) i) = Inr (False, d)"
    by blast
  ultimately obtain d
    where last: "plausible (segment_args lat lng (route_airports route)
                   (length (route_airports route) - 2)) = Inr (False, d)"
      and loop: "snd (segment_loop plausible lat lng (route_airports route) 0 False 0)
                   = Inr (False, d)"
    using segment_loop_implausible [of 0 "route_airports route" plausible lat lng False 0]
    by blast
  from loop have "snd (get_route_for_callsign_lat_lng get_route plausible callsign lat lng)
        = Inr (route\<lparr>route_plausible := Some False\<rparr>)"
    and "last (fst (get_route_for_callsign_lat_lng get_route plausible callsign lat lng))
        = Print_implausible lat lng d"
    by (simp_all add: resolve_known [of get_route callsign route, OF assms(1,2)])
  with last show ?thesis by blast
qed

theorem implausible_route_reports_last_distance_witness:
  "store_ex ''CALLSIGN1'' = Inr route_ABC
   \<and> route_airport_codes route_ABC \<noteq> ''unknown''
   \<and> 2 \<le> length (route_airports route_ABC)
   \<and> oracle_ex (segment_args ''50'' ''50'' (route_airports route_ABC) 0) = Inr (False, 2400)
   \<and> oracle_ex (segment_args ''50'' ''50'' (route_airports route_ABC) 1) = Inr (False, 2300)
   \<and> snd (get_route_for_callsign_lat_lng store_ex oracle_ex ''CALLSIGN1'' ''50'' ''50'')
       = Inr (route_ABC\<lparr>route_plausible := Some False\<rparr>)
   \<and> last (fst (get_route_for_callsign_lat_lng store_ex oracle_ex ''CALLSIGN1'' ''50'' ''50''))
       = Print_implausible ''50'' ''50'' 2300"
proof -
  have fetched: "store_ex ''CALLSIGN1'' = Inr route_ABC"
    by (simp add: store_ex_def)
  have known: "route_airport_codes route_ABC \<noteq> ''unknown''"
    by (simp add: route_ABC_def)
  have chain: "2 \<le> length (route_airports route_ABC)"
    and segments: "length (route_airports route_ABC) - 1 = 2"
      "length (route_airports route_ABC) - 2 = 1"
    by (simp_all add: route_ABC_def)
  have first: "oracle_ex (segment_args ''50'' ''50'' (route_airports route_ABC) 0)
      = Inr (False, 2400)"
    and second: "oracle_ex (segment_args ''50'' ''50'' (route_airports route_ABC) 1)
      = Inr (False, 2300)"
    by (simp_all add: segments_ABC oracle_ex_def)
  have "\<exists>d. oracle_ex (segment_args ''50'' ''50'' (route_airports route_ABC) i)
      = Inr (False, d)" if "i < 2" for i
  proof -
    from that have "i = 0 \<or> i = 1" by auto
    with first second show ?thesis by auto
  qed
  with segments have none: "\<forall>i < length (route_airports route_ABC) - 1.
      \<exists>d. oracle_ex (segment_args ''50'' ''50'' (route_airports route_ABC) i) = Inr (False, d)"
    by simp
  from implausible_route_reports_last_distance
    [of store_ex "''CALLSIGN1''" route_ABC oracle_ex "''50''" "''50''",
      OF fetched known chain none]
  obtain d where "oracle_ex (segment_args ''50'' ''50'' (route_airports route_ABC) 1)
        = Inr (False, d)"
    and "snd (get_route_for_callsign_lat_lng store_ex oracle_ex ''CALLSIGN1'' ''50'' ''50'')
        = Inr (route_ABC\<lparr>route_plausible := Some False\<rparr>)"
    and "last (fst (get_route_for_callsign_lat_lng store_ex oracle_ex ''CALLSIGN1'' ''50'' ''50''))
        = Print_implausible ''50'' ''50'' d"
    unfolding segments by blast
  with first second fetched known chain show ?thesis by simp
qed

text \<open>
  C4 as stated lets the returned record carry that distance. It does not: under two
  oracles that report 2300 and 7 for the last segment the resolver returns the same
  record, so that no reading of the record yields the distance.
\<close>

theorem returned_record_carries_no_distance_counterexample:
  "oracle_ex (segment_args ''50'' ''50'' (route_airports route_ABC) 1) = Inr (False, 2300)
   \<and> oracle_near (segment_args ''50'' ''50'' (route_airports route_ABC) 1) = Inr (False, 7)
   \<and> snd (get_route_for_callsign_lat_lng store_ex oracle_ex ''CALLSIGN1'' ''50'' ''50'')
       = Inr (route_ABC\<lparr>route_plausible := Some False\<rparr>)
   \<and> snd (get_route_for_callsign_lat_lng store_ex oracle_near ''CALLSIGN1'' ''50'' ''50'')
       = Inr (route_ABC\<lparr>route_plausible := Some False\<rparr>)
   \<and> \<not> (\<exists>distance_of :: error + unit route \<Rightarrow> int.
         distance_of (snd (get_route_for_callsign_lat_lng
                              store_ex oracle_ex ''CALLSIGN1'' ''50'' ''50'')) = 2300
       \<and> distance_of (snd (get_route_for_callsign_lat_lng
                              store_ex oracle_near ''CALLSIGN1'' ''50'' ''50'')) = 7)"
  by (simp add: segments_ABC oracle_ex_def oracle_near_def run_off_route run_off_route_near)

text \<open>
  C10. For a record whose \<open>airport_codes\<close> is not \<open>"unknown"\<close> and whose list of airports
  has fewer than two entries, the body of the loop never runs: the resolver makes no
  oracle call and returns the record with \<open>plausible\<close> present and set to false.
\<close>

theorem short_route_is_implausible:
  assumes "get_route callsign = Inr route"
    and "route_airport_codes route \<noteq> ''unknown''"
    and "length (route_airports route) < 2"
  shows "oracle_calls
           (fst (get_route_for_callsign_lat_lng get_route plausible callsign lat lng)) = []
    \<and> snd (get_route_for_callsign_lat_lng get_route plausible callsign lat lng)
        = Inr (route\<lparr>route_plausible := Some False\<rparr>)"
proof -
  from assms(3) have "\<not> int 0 < int (length (route_airports route)) - 1" by simp
  then have "segment_loop plausible lat lng (route_airports route) 0 False 0
      = ([], Inr (False, 0))"
    by (rule segment_loop_exit)
  then show ?thesis
    by (simp add: resolve_known [of get_route callsign route, OF assms(1,2)])
qed

theorem short_route_is_implausible_witness:
  "store_ex ''CALLSIGN4'' = Inr route_single
   \<and> route_airport_codes route_single \<noteq> ''unknown''
   \<and> length (route_airports route_single) < 2
   \<and> route_plausible route_single = None
   \<and> oracle_calls
       (fst (get_route_for_callsign_lat_lng store_ex oracle_ex ''CALLSIGN4'' ''11.5'' ''21.5''))
       = []
   \<and> snd (get_route_for_callsign_lat_lng store_ex oracle_ex ''CALLSIGN4'' ''11.5'' ''21.5'')
       = Inr (route_single\<lparr>route_plausible := Some False\<rparr>)"
proof -
  have fetched: "store_ex ''CALLSIGN4'' = Inr route_single"
    by (simp add: store_ex_def)
  have known: "route_airport_codes route_single \<noteq> ''unknown''"
    and short: "length (route_airports route_single) < 2"
    and unset: "route_plausible route_single = None"
    by (simp_all add: route_single_def)
  from short_route_is_implausible
    [of store_ex "''CALLSIGN4''" route_single oracle_ex "''11.5''" "''21.5''",
      OF fetched known short]
    fetched known short unset
  show ?thesis by simp
qed

text \<open>
  C6, as the code has it. Every call that the resolver makes to the oracle is the check of
  a segment of the route: the position is handed on as it was received, and the four other
  arguments are the latitude and the longitude of the two endpoint airports of the segment
  as \<open>.5f\<close> writes them. A finite coordinate, a zero of either sign included, is passed
  as a decimal numeral with exactly five fractional digits that denotes the multiple of
  \<open>0.00001\<close> nearest to it, a tie going to the even last digit, with a minus sign just
  when its sign bit is set. An infinite coordinate is passed as \<open>inf\<close> or \<open>-inf\<close>, and
  one that is not a number as \<open>nan\<close>.
\<close>

theorem oracle_receives_coordinates_written_to_five_places:
  assumes "get_route callsign = Inr route"
    and "args \<in> set (oracle_calls
           (fst (get_route_for_callsign_lat_lng get_route plausible callsign lat lng)))"
  shows "\<exists>i a_lat a_lon b_lat b_lon.
      i + 1 < length (route_airports route)
    \<and> args = (lat, lng, a_lat, a_lon, b_lat, b_lon)
    \<and> passed_as (airport_lat (route_airports route ! i)) a_lat
    \<and> passed_as (airport_lon (route_airports route ! i)) a_lon
    \<and> passed_as (airport_lat (route_airports route ! (i + 1))) b_lat
    \<and> passed_as (airport_lon (route_airports route ! (i + 1))) b_lon"
proof -
  from assms have "args \<in> set (oracle_calls
      (fst (segment_loop plausible lat lng (route_airports route) 0 False 0)))"
    by (simp add: resolve_calls split: if_splits)
  then obtain i where "i + 1 < length (route_airports route)"
    and "args = segment_args lat lng (route_airports route) i"
    by (auto dest: segment_loop_formats)
  then have "i + 1 < length (route_airports route)
    \<and> args = (lat, lng,
        format_5f (airport_lat (route_airports route ! i)),
        format_5f (airport_lon (route_airports route ! i)),
        format_5f (airport_lat (route_airports route ! (i + 1))),
        format_5f (airport_lon (route_airports route ! (i + 1))))"
    by (simp add: segment_args_def)
  moreover have "passed_as x (format_5f x)" for x
    by (rule passed_as_format_5f)
  ultimately show ?thesis by blast
qed

theorem oracle_receives_coordinates_written_to_five_places_witness:
  "store_ex ''CALLSIGN1'' = Inr route_ABC
   \<and> (''11.5'', ''21.5'', ''11.00000'', ''21.00000'', ''12.00000'', ''22.00000'')
       \<in> set (oracle_calls
           (fst (get_route_for_callsign_lat_lng store_ex oracle_ex ''CALLSIGN1'' ''11.5'' ''21.5'')))
   \<and> (\<exists>i a_lat a_lon b_lat b_lon.
        i + 1 < length (route_airports route_ABC)
      \<and> (''11.5'', ''21.5'', ''11.00000'', ''21.00000'', ''12.00000'', ''22.00000'')
          = (''11.5'', ''21.5'', a_lat, a_lon, b_lat, b_lon)
      \<and> passed_as (airport_lat (route_airports route_ABC ! i)) a_lat
      \<and> passed_as (airport_lon (route_airports route_ABC ! i)) a_lon
      \<and> passed_as (airport_lat (route_airports route_ABC ! (i + 1))) b_lat
      \<and> passed_as (airport_lon (route_airports route_ABC ! (i + 1))) b_lon)
   \<and> passed_as (Finite 12) ''12.00000''
   \<and> \<not> passed_as (Finite 12) ''12.0''
   \<and> \<not> passed_as (Finite (3 / 2)) ''1.00000''
   \<and> \<not> passed_as (Finite (3 / 2)) ''1.50001''
   \<and> passed_as (Finite (3 / 2)) ''1.50000''
   \<and> passed_as (Finite (1 / 200000)) ''0.00000''
   \<and> \<not> passed_as (Finite (1 / 200000)) ''0.00001''
   \<and> passed_as Minus_zero ''-0.00000''
   \<and> \<not> passed_as Minus_zero ''0.00000''
   \<and> format_5f (Finite (3 / 2)) = ''1.50000''
   \<and> format_5f (Finite (- 1 / 3)) = ''-0.33333''
   \<and> format_5f (Finite (1 / 200000)) = ''0.00000''
   \<and> format_5f (Finite (- 1 / 1000000)) = ''-0.00000''
   \<and> format_5f Minus_zero = ''-0.00000''"
proof -
  have fetched: "store_ex ''CALLSIGN1'' = Inr route_ABC"
    by (simp add: store_ex_def)
  have called: "(''11.5'', ''21.5'', ''11.00000'', ''21.00000'', ''12.00000'', ''22.00000'')
     \<in> set (oracle_calls
         (fst (get_route_for_callsign_lat_lng store_ex oracle_ex ''CALLSIGN1'' ''11.5'' ''21.5'')))"
    by (simp add: run_on_route)
  have numerals: "passed_as (Finite 12) ''12.00000''"
    "\<not> passed_as (Finite 12) ''12.0''"
    "\<not> passed_as (Finite (3 / 2)) ''1.00000''"
    "\<not> passed_as (Finite (3 / 2)) ''1.50001''"
    "passed_as (Finite (3 / 2)) ''1.50000''"
    "passed_as (Finite (1 / 200000)) ''0.00000''"
    "\<not> passed_as (Finite (1 / 200000)) ''0.00001''"
    "passed_as Minus_zero ''-0.00000''"
    "\<not> passed_as Minus_zero ''0.00000''"
    by (simp_all add: written_to_5_places_def five_fraction_digits_def is_digit_def
        decimal_value_def digits_value_def digit_value_def)
  have written: "format_5f (Finite (3 / 2)) = ''1.50000''"
    "format_5f (Finite (- 1 / 3)) = ''-0.33333''"
    "format_5f (Finite (1 / 200000)) = ''0.00000''"
    "format_5f (Finite (- 1 / 1000000)) = ''-0.00000''"
    "format_5f Minus_zero = ''-0.00000''"
    by code_simp+
  from oracle_receives_coordinates_written_to_five_places
    [of store_ex "''CALLSIGN1''" route_ABC _ oracle_ex "''11.5''" "''21.5''", OF fetched called]
    fetched called numerals written
  show ?thesis by blast
qed

text \<open>
  C6 as stated, exactly five fractional digits for each coordinate of every segment check,
  does not hold of a coordinate that is not a number: for the route of \<open>CALLSIGN5\<close> the
  oracle is handed \<open>nan\<close>, which has no fractional digit.
\<close>

theorem not_a_number_is_passed_without_digits_counterexample:
  "store_ex ''CALLSIGN5'' = Inr route_AN
   \<and> airport_lat (route_airports route_AN ! 1) = NaN
   \<and> oracle_calls
       (fst (get_route_for_callsign_lat_lng store_ex oracle_ex ''CALLSIGN5'' ''11.5'' ''21.5''))
     = [(''11.5'', ''21.5'', ''10.00000'', ''20.00000'', ''nan'', ''30.00000'')]
   \<and> \<not> five_fraction_digits ''nan''"
  by (simp add: run_not_a_number store_ex_def route_AN_def airport_N_def
      five_fraction_digits_def)

section \<open>Failures, the fetched record, repeated calls\<close>

text \<open>
  C7. When a call that the resolver makes to the oracle raises, the resolution raises the
  same exception. It returns no record, so that a failed check cannot be taken for a
  completed one whose verdict is implausible.
\<close>

theorem oracle_failure_propagates:
  assumes "args \<in> set (oracle_calls
             (fst (get_route_for_callsign_lat_lng get_route plausible callsign lat lng)))"
    and "plausible args = Inl e"
  shows "snd (get_route_for_callsign_lat_lng get_route plausible callsign lat lng) = Inl e
    \<and> (\<forall>r. snd (get_route_for_callsign_lat_lng get_route plausible callsign lat lng) \<noteq> Inr r)"
proof -
  from assms(1) obtain route where fetched: "get_route callsign = Inr route"
    and known: "route_airport_codes route \<noteq> ''unknown''"
    and called: "args \<in> set (oracle_calls
          (fst (segment_loop plausible lat lng (route_airports route) 0 False 0)))"
    by (cases "get_route callsign") (auto simp: resolve_calls split: if_splits)
  from called assms(2)
  have "snd (segment_loop plausible lat lng (route_airports route) 0 False 0) = Inl e"
    by (rule segment_loop_raise)
  then have "snd (get_route_for_callsign_lat_lng get_route plausible callsign lat lng) = Inl e"
    by (simp add: resolve_known [of get_route callsign route, OF fetched known])
  then show ?thesis by simp
qed

theorem oracle_failure_propagates_witness:
  "(''x'', ''50'', ''10.00000'', ''20.00000'', ''11.00000'', ''21.00000'')
     \<in> set (oracle_calls
         (fst (get_route_for_callsign_lat_lng store_ex oracle_ex ''CALLSIGN1'' ''x'' ''50'')))
   \<and> oracle_ex (''x'', ''50'', ''10.00000'', ''20.00000'', ''11.00000'', ''21.00000'')
       = Inl (OracleFailure ''could not convert string to float'')
   \<and> snd (get_route_for_callsign_lat_lng store_ex oracle_ex ''CALLSIGN1'' ''x'' ''50'')
       = Inl (OracleFailure ''could not convert string to float'')
   \<and> snd (get_route_for_callsign_lat_lng store_ex oracle_ex ''CALLSIGN1'' ''x'' ''50'')
       \<noteq> Inr (route_ABC\<lparr>route_plausible := Some False\<rparr>)"
proof -
  have called: "(''x'', ''50'', ''10.00000'', ''20.00000'', ''11.00000'', ''21.00000'')
     \<in> set (oracle_calls
         (fst (get_route_for_callsign_lat_lng store_ex oracle_ex ''CALLSIGN1'' ''x'' ''50'')))"
    by (simp add: run_malformed)
  have raised: "oracle_ex (''x'', ''50'', ''10.00000'', ''20.00000'', ''11.00000'', ''21.00000'')
       = Inl (OracleFailure ''could not convert string to float'')"
    by (simp add: oracle_ex_def)
  from oracle_failure_propagates [OF called raised] called raised
  show ?thesis by blast
qed

text \<open>
  C8. The record that the resolver returns agrees with the record fetched from the store
  in \<open>airport_codes\<close>, in the list of airports with all their fields, and in every other
  key; it is the fetched record up to the key \<open>plausible\<close>.
\<close>

theorem resolver_only_sets_plausible:
  assumes "get_route callsign = Inr route"
    and "snd (get_route_for_callsign_lat_lng get_route plausible callsign lat lng) = Inr r"
  shows "route_airport_codes r = route_airport_codes route
    \<and> route_airports r = route_airports route
    \<and> route.more r = route.more route
    \<and> r = route\<lparr>route_plausible := route_plausible r\<rparr>"
  using assms
  by (auto simp: get_route_for_callsign_lat_lng_def split: sum.splits prod.splits if_splits)

theorem resolver_only_sets_plausible_witness:
  "store_ex ''CALLSIGN1'' = Inr route_ABC
   \<and> snd (get_route_for_callsign_lat_lng store_ex oracle_ex ''CALLSIGN1'' ''11.5'' ''21.5'')
       = Inr (route_ABC\<lparr>route_plausible := Some True\<rparr>)
   \<and> route_airport_codes (route_ABC\<lparr>route_plausible := Some True\<rparr>)
       = route_airport_codes route_ABC
   \<and> route_airports (route_ABC\<lparr>route_plausible := Some True\<rparr>) = route_airports route_ABC
   \<and> route.more (route_ABC\<lparr>route_plausible := Some True\<rparr>) = route.more route_ABC
   \<and> route_plausible (route_ABC\<lparr>route_plausible := Some True\<rparr>)
       \<noteq> route_plausible route_ABC"
proof -
  have fetched: "store_ex ''CALLSIGN1'' = Inr route_ABC"
    by (simp add: store_ex_def)
  have returned:
    "snd (get_route_for_callsign_lat_lng store_ex oracle_ex ''CALLSIGN1'' ''11.5'' ''21.5'')
       = Inr (route_ABC\<lparr>route_plausible := Some True\<rparr>)"
    by (simp add: run_on_route)
  have "route_plausible (route_ABC\<lparr>route_plausible := Some True\<rparr>)
      \<noteq> route_plausible route_ABC"
    by (simp add: route_ABC_def)
  with resolver_only_sets_plausible
    [of store_ex "''CALLSIGN1''" route_ABC oracle_ex "''11.5''" "''21.5''", OF fetched returned]
    fetched returned
  show ?thesis by blast
qed

text \<open>
  C9. A resolution is determined by the answers of the store and of the oracle. A second
  call, for which the store answers the same for the callsign and the oracle the same for
  every call that the first resolution made, has the outcome of the first: the same record
  with its verdict and the same trace with its distance. Two calls against an unchanged
  store and oracle are the case of equal functions.
\<close>

theorem resolve_depends_on_answers_only:
  assumes "get_route' callsign = get_route callsign"
    and "\<forall>args \<in> set (oracle_calls
            (fst (get_route_for_callsign_lat_lng get_route plausible callsign lat lng))).
           plausible' args = plausible args"
  shows "get_route_for_callsign_lat_lng get_route' plausible' callsign lat lng
    = get_route_for_callsign_lat_lng get_route plausible callsign lat lng"
proof (cases "get_route callsign")
  case (Inl e)
  with assms(1) show ?thesis by (simp add: get_route_for_callsign_lat_lng_def)
next
  case (Inr route)
  show ?thesis
  proof (cases "route_airport_codes route = ''unknown''")
    case True
    with Inr assms(1) show ?thesis by (simp add: get_route_for_callsign_lat_lng_def)
  next
    case False
    from assms(2) Inr False
    have "\<And>args. args \<in> set (oracle_calls
            (fst (segment_loop plausible lat lng (route_airports route) 0 False 0)))
          \<Longrightarrow> plausible args = plausible' args"
      by (simp add: resolve_calls)
    then have "segment_loop plausible' lat lng (route_airports route) 0 False 0
        = segment_loop plausible lat lng (route_airports route) 0 False 0"
      by (rule segment_loop_cong)
    moreover from Inr assms(1) have fetched': "get_route' callsign = Inr route" by simp
    ultimately show ?thesis
      unfolding resolve_known [of get_route callsign route, OF Inr False]
        resolve_known [of get_route' callsign route, OF fetched' False]
      by (simp only:)
  qed
qed

theorem resolve_depends_on_answers_only_witness:
  "oracle_near (''11.5'', ''21.5'', ''10.00000'', ''20.00000'', ''11.00000'', ''21.00000'')
     = oracle_ex (''11.5'', ''21.5'', ''10.00000'', ''20.00000'', ''11.00000'', ''21.00000'')
   \<and> oracle_near (''11.5'', ''21.5'', ''11.00000'', ''21.00000'', ''12.00000'', ''22.00000'')
     = oracle_ex (''11.5'', ''21.5'', ''11.00000'', ''21.00000'', ''12.00000'', ''22.00000'')
   \<and> get_route_for_callsign_lat_lng store_ex oracle_near ''CALLSIGN1'' ''11.5'' ''21.5''
     = get_route_for_callsign_lat_lng store_ex oracle_ex ''CALLSIGN1'' ''11.5'' ''21.5''
   \<and> get_route_for_callsign_lat_lng store_ex oracle_near ''CALLSIGN1'' ''50'' ''50''
     \<noteq> get_route_for_callsign_lat_lng store_ex oracle_ex ''CALLSIGN1'' ''50'' ''50''"
proof -
  have same: "\<forall>args \<in> set (oracle_calls
      (fst (get_route_for_callsign_lat_lng store_ex oracle_ex ''CALLSIGN1'' ''11.5'' ''21.5''))).
      oracle_near args = oracle_ex args"
    by (simp add: run_on_route oracle_near_def)
  have "get_route_for_callsign_lat_lng store_ex oracle_near ''CALLSIGN1'' ''50'' ''50''
     \<noteq> get_route_for_callsign_lat_lng store_ex oracle_ex ''CALLSIGN1'' ''50'' ''50''"
    by (simp add: run_off_route run_off_route_near)
  with resolve_depends_on_answers_only
    [of store_ex "''CALLSIGN1''" store_ex oracle_ex "''11.5''" "''21.5''" oracle_near,
      OF refl same]
  show ?thesis by (simp add: oracle_near_def)
qed

section \<open>Batches\<close>

text \<open>
  C1, as the code has it. \<open>api_routeset\<close> has no handler around the resolution of an
  item. When the resolution of an item raises, every item before it having been resolved,
  the call as a whole raises that item's exception: no result sequence is returned, and
  the items after the failing one are never started, so that the events of the run are
  those of the items up to and including the failing one.
\<close>

theorem batch_fails_with_first_failure:
  assumes "planes planeList = earlier @ p # later"
    and "\<forall>q \<in> set earlier. \<exists>r. snd (resolve_plane get_route plausible q) = Inr r"
    and "snd (resolve_plane get_route plausible p) = Inl e"
  shows "snd (api_routeset get_route plausible planeList) = Inl e
    \<and> fst (api_routeset get_route plausible planeList) =
        Print_planeList planeList
          # concat (map (\<lambda>q. fst (resolve_plane get_route plausible q)) (earlier @ [p]))"
  using routeset_loop_first_failure [OF assms(2,3), of later "[]"] assms(1)
  by (simp add: api_routeset_def)

theorem batch_fails_with_first_failure_witness:
  "planes batch_failing = [plane_on_route] @ plane_not_stored # [plane_unknown]
   \<and> snd (resolve_plane store_ex oracle_ex plane_on_route)
       = Inr (route_ABC\<lparr>route_plausible := Some True\<rparr>)
   \<and> snd (resolve_plane store_ex oracle_ex plane_not_stored)
       = Inl (StoreUnavailable ''connection lost'')
   \<and> snd (api_routeset store_ex oracle_ex batch_failing)
       = Inl (StoreUnavailable ''connection lost'')
   \<and> fst (api_routeset store_ex oracle_ex batch_failing)
       = Print_planeList batch_failing
           # fst (resolve_plane store_ex oracle_ex plane_on_route)"
proof -
  have batch: "planes batch_failing = [plane_on_route] @ plane_not_stored # [plane_unknown]"
    by (simp add: batch_failing_def)
  have first: "snd (resolve_plane store_ex oracle_ex plane_on_route)
      = Inr (route_ABC\<lparr>route_plausible := Some True\<rparr>)"
    by (simp add: plane_on_route_def run_on_route)
  then have earlier: "\<forall>q \<in> set [plane_on_route].
      \<exists>r. snd (resolve_plane store_ex oracle_ex q) = Inr r"
    by simp
  have second: "snd (resolve_plane store_ex oracle_ex plane_not_stored)
      = Inl (StoreUnavailable ''connection lost'')"
    and silent: "fst (resolve_plane store_ex oracle_ex plane_not_stored) = []"
    by (simp_all add: plane_not_stored_def run_not_stored)
  from batch_fails_with_first_failure [OF batch earlier second] silent batch first second
  show ?thesis by simp
qed

text \<open>
  C1 as stated, one slot per item with an error marker in the slot of the failed one, does
  not hold. In a batch of three whose second item cannot be fetched from the store, the
  first and the third item resolve on their own, and yet the batch returns no sequence at
  all. The same happens in a batch of two on whose first item the oracle raises.
\<close>

theorem batch_isolation_counterexample:
  "snd (resolve_plane store_ex oracle_ex (planes batch_failing ! 0))
     = Inr (route_ABC\<lparr>route_plausible := Some True\<rparr>)
   \<and> snd (resolve_plane store_ex oracle_ex (planes batch_failing ! 1))
     = Inl (StoreUnavailable ''connection lost'')
   \<and> snd (resolve_plane store_ex oracle_ex (planes batch_failing ! 2))
     = Inr route_unknown
   \<and> snd (api_routeset store_ex oracle_ex batch_failing)
     = Inl (StoreUnavailable ''connection lost'')
   \<and> \<not> (\<exists>response. snd (api_routeset store_ex oracle_ex batch_failing) = Inr response)
   \<and> snd (resolve_plane store_ex oracle_ex (planes batch_malformed ! 1))
     = Inr (route_ABC\<lparr>route_plausible := Some True\<rparr>)
   \<and> snd (api_routeset store_ex oracle_ex batch_malformed)
     = Inl (OracleFailure ''could not convert string to float'')"
  by (simp add: api_routeset_def batch_failing_def batch_malformed_def plane_on_route_def
      plane_not_stored_def plane_unknown_def plane_malformed_def
      run_on_route run_not_stored run_unknown run_malformed)

text \<open>
  C5. When every item of a batch resolves without an exception, \<open>api_routeset\<close> returns
  a response whose content has the length of the batch and holds, at each index, the
  record that the resolution of the item at that index returns; known and unknown routes
  may be mixed.
\<close>

theorem batch_results_in_order:
  assumes "\<forall>p \<in> set (planes planeList).
             \<exists>r. snd (resolve_plane get_route plausible p) = Inr r"
  shows "\<exists>response.
      snd (api_routeset get_route plausible planeList) = Inr response
    \<and> length (content response) = length (planes planeList)
    \<and> (\<forall>i < length (planes planeList).
          snd (resolve_plane get_route plausible (planes planeList ! i))
            = Inr (content response ! i))"
proof -
  from routeset_loop_all_resolved [OF assms, of "[]"] obtain routes
    where "snd (routeset_loop get_route plausible (planes planeList) []) = Inr routes"
      and "length routes = length (planes planeList)"
      and "\<forall>i < length (planes planeList).
          snd (resolve_plane get_route plausible (planes planeList ! i)) = Inr (routes ! i)"
    by auto
  then show ?thesis
    by (simp add: api_routeset_unfold)
qed

theorem batch_results_in_order_witness:
  "snd (resolve_plane store_ex oracle_ex plane_on_route)
     = Inr (route_ABC\<lparr>route_plausible := Some True\<rparr>)
   \<and> snd (resolve_plane store_ex oracle_ex plane_unknown) = Inr route_unknown
   \<and> (\<exists>response.
        snd (api_routeset store_ex oracle_ex batch_mixed) = Inr response
      \<and> content response = [route_ABC\<lparr>route_plausible := Some True\<rparr>, route_unknown])"
proof -
  have first: "snd (resolve_plane store_ex oracle_ex plane_on_route)
      = Inr (route_ABC\<lparr>route_plausible := Some True\<rparr>)"
    by (simp add: plane_on_route_def run_on_route)
  have second: "snd (resolve_plane store_ex oracle_ex plane_unknown) = Inr route_unknown"
    by (simp add: plane_unknown_def run_unknown)
  have batch: "planes batch_mixed = [plane_on_route, plane_unknown]"
    by (simp add: batch_mixed_def)
  from first second batch
  have "\<forall>p \<in> set (planes batch_mixed). \<exists>r. snd (resolve_plane store_ex oracle_ex p) = Inr r"
    by simp
  from batch_results_in_order [OF this] obtain response
    where response: "snd (api_routeset store_ex oracle_ex batch_mixed) = Inr response"
      and len: "length (content response) = length (planes batch_mixed)"
      and nth: "\<forall>i < length (planes batch_mixed).
          snd (resolve_plane store_ex oracle_ex (planes batch_mixed ! i))
            = Inr (content response ! i)"
    by blast
  from nth [rule_format, of 0] nth [rule_format, of 1] first second batch
  have "content response ! 0 = route_ABC\<lparr>route_plausible := Some True\<rparr>"
    and "content response ! 1 = route_unknown"
    by simp_all
  with len batch
  have "content response = [route_ABC\<lparr>route_plausible := Some True\<rparr>, route_unknown]"
    by (simp add: list_eq_iff_nth_eq less_Suc_eq numeral_2_eq_2)
  with first second response show ?thesis by blast
qed

end
